(* ===== verification/Prelude.thy ===== *)
theory Prelude
  imports Main "HOL-Library.Word"
begin

text \<open>
  Shared vocabulary of the development: the C integer types as words, byte strings as
  lists, the named collections the component theories feed, the generic lemmas they share,
  and the interfaces (locales) through which one component relies on another:

  \<^item> \<open>codec\<close>: a fixed-width encoding with its decoder (wire counters, IPv4 addresses);
  \<^item> \<open>freshness_filter\<close>: a stateful check that admits each counter at most once (the
    sliding replay window of the data channel, the strictly increasing handshake counter);
  \<^item> \<open>invariant_system\<close>: a step function with an invariant that every step keeps;
  \<^item> \<open>checked_scan\<close>: a line scanner with errors whose state invariant every accepted line keeps.
\<close>

unbundle bit_operations_syntax

section \<open>Types\<close>

type_synonym byte = "8 word"
type_synonym bytes = "byte list"
type_synonym u16 = "16 word"
type_synonym u32 = "32 word"
type_synonym u64 = "64 word"

section \<open>Collections\<close>

named_theorems frame_simps \<open>which fields an operation leaves alone\<close>
named_theorems wire_simps \<open>lengths and layout of wire messages\<close>
named_theorems const_defs \<open>numeric constants of the header files\<close>

section \<open>Generic executions\<close>

text \<open>Feeding a sequence of items to a stateful check and collecting the admitted ones.\<close>

fun filter_run :: "('s \<Rightarrow> 'c \<Rightarrow> 's \<times> bool) \<Rightarrow> 's \<Rightarrow> 'c list \<Rightarrow> 's \<times> 'c list" where
  "filter_run check s [] = (s, [])"
| "filter_run check s (c # cs) =
     (case check s c of (s', ok) \<Rightarrow>
        (case filter_run check s' cs of (s'', acc) \<Rightarrow> (s'', if ok then c # acc else acc)))"

text \<open>Running a step function over a sequence of events.\<close>

fun run :: "('s \<Rightarrow> 'e \<Rightarrow> 's) \<Rightarrow> 's \<Rightarrow> 'e list \<Rightarrow> 's" where
  "run step s [] = s"
| "run step s (e # es) = run step (step s e) es"

text \<open>Scanning a list of lines, numbered from \<open>n\<close>, until the first error.\<close>

fun scan :: "('s \<Rightarrow> nat \<Rightarrow> 'l \<Rightarrow> 'e + 's) \<Rightarrow> nat \<Rightarrow> 's \<Rightarrow> 'l list \<Rightarrow> 'e + 's" where
  "scan step n s [] = Inr s"
| "scan step n s (l # ls) =
     (case step s n l of Inl e \<Rightarrow> Inl e | Inr s' \<Rightarrow> scan step (Suc n) s' ls)"

section \<open>Interfaces\<close>

locale codec =
  fixes enc :: "'a \<Rightarrow> 'b list"
    and dec :: "'b list \<Rightarrow> 'a"
    and width :: nat
  assumes enc_length: "length (enc x) = width"
    and dec_enc: "dec (enc x) = x"
begin

lemma enc_eq_iff: "enc x = enc y \<longleftrightarrow> x = y"
  by (metis dec_enc)

lemma framed_eq_iff: "enc x @ r = enc y @ r' \<longleftrightarrow> x = y \<and> r = r'"
  by (simp add: enc_length enc_eq_iff)

lemma dec_framed: "dec (take width (enc x @ r)) = x"
  by (simp add: enc_length dec_enc)

lemma drop_framed: "drop width (enc x @ r) = r"
  by (simp add: enc_length)

end

locale freshness_filter =
  fixes check :: "'s \<Rightarrow> 'c \<Rightarrow> 's \<times> bool"
    and inv :: "'s \<Rightarrow> 'c set \<Rightarrow> bool"
  assumes check_accept: "inv s S \<Longrightarrow> check s c = (s', True) \<Longrightarrow> c \<notin> S \<and> inv s' (insert c S)"
    and check_reject: "inv s S \<Longrightarrow> check s c = (s', False) \<Longrightarrow> s' = s"
begin

lemma check_inv: "inv s S \<Longrightarrow> check s c = (s', ok) \<Longrightarrow> inv s' (if ok then insert c S else S)"
  by (cases ok) (auto dest: check_accept check_reject)

lemma run_accepts_once:
  assumes "inv s S" and "filter_run check s cs = (s', acc)"
  shows "distinct acc \<and> set acc \<inter> S = {} \<and> set acc \<subseteq> set cs \<and> inv s' (S \<union> set acc)"
  using assms
proof (induction cs arbitrary: s S s' acc)
  case Nil
  then show ?case by simp
next
  case (Cons c cs)
  obtain s1 ok where c: "check s c = (s1, ok)" by fastforce
  obtain s2 acc2 where r: "filter_run check s1 cs = (s2, acc2)" by fastforce
  have inv1: "inv s1 (if ok then insert c S else S)"
    using check_inv [OF Cons.prems(1) c] .
  have IH: "distinct acc2 \<and> set acc2 \<inter> (if ok then insert c S else S) = {} \<and>
      set acc2 \<subseteq> set cs \<and> inv s2 ((if ok then insert c S else S) \<union> set acc2)"
    by (rule Cons.IH [OF inv1 r])
  have "ok \<Longrightarrow> c \<notin> S"
    using check_accept [OF Cons.prems(1), of c s1] c by simp
  with IH Cons.prems(2) c r show ?case
    by (cases ok) auto
qed

lemma replay_rejected:
  assumes "inv s S" and "c \<in> S"
  shows "check s c = (s, False)"
proof (cases "check s c")
  case (Pair s' ok)
  with assms show ?thesis
    by (cases ok) (auto dest: check_accept check_reject)
qed

end

locale invariant_system =
  fixes step :: "'s \<Rightarrow> 'e \<Rightarrow> 's"
    and inv :: "'s \<Rightarrow> bool"
  assumes step_inv: "inv s \<Longrightarrow> inv (step s e)"
begin

lemma run_inv: "inv s \<Longrightarrow> inv (run step s es)"
  by (induction es arbitrary: s) (auto intro: step_inv)

end

locale checked_scan =
  fixes step :: "'s \<Rightarrow> nat \<Rightarrow> 'l \<Rightarrow> 'e + 's"
    and lines :: "'l set"
    and inv :: "'s \<Rightarrow> bool"
  assumes step_ok_inv: "inv s \<Longrightarrow> l \<in> lines \<Longrightarrow> step s n l = Inr s' \<Longrightarrow> inv s'"
begin

lemma scan_inv: "inv s \<Longrightarrow> set ls \<subseteq> lines \<Longrightarrow> scan step n s ls = Inr s' \<Longrightarrow> inv s'"
proof (induction ls arbitrary: n s)
  case Nil
  then show ?case by simp
next
  case (Cons l ls)
  then show ?case
    by (auto split: sum.splits dest: step_ok_inv)
qed

end

section \<open>Runs and scans\<close>

lemma run_append: "run step s (es @ fs) = run step (run step s es) fs"
  by (induction es arbitrary: s) auto

lemma scan_append:
  "scan step n s (ls @ ms) =
     (case scan step n s ls of Inl e \<Rightarrow> Inl e | Inr s' \<Rightarrow> scan step (n + length ls) s' ms)"
  by (induction ls arbitrary: n s) (auto split: sum.splits)

text \<open>A scan fails exactly at the first line whose step fails.\<close>

lemma scan_Inl:
  "scan step n s ls = Inl e \<Longrightarrow>
     \<exists>pre l post s'. ls = pre @ l # post \<and> scan step n s pre = Inr s' \<and>
       step s' (n + length pre) l = Inl e"
proof (induction ls arbitrary: n s)
  case Nil
  then show ?case by simp
next
  case (Cons x xs)
  show ?case
  proof (cases "step s n x")
    case (Inl e')
    with Cons.prems show ?thesis
      by (intro exI [of _ "[]"] exI [of _ x] exI [of _ xs] exI [of _ s]) simp
  next
    case (Inr s1)
    with Cons.prems obtain pre l post s' where
      "xs = pre @ l # post" "scan step (Suc n) s1 pre = Inr s'"
      "step s' (Suc n + length pre) l = Inl e"
      using Cons.IH [of "Suc n" s1] by auto
    with Inr show ?thesis
      by (intro exI [of _ "x # pre"] exI [of _ l] exI [of _ post] exI [of _ s']) simp
  qed
qed

section \<open>Words\<close>

lemma unat_Suc_word: "(c::'a::len word) < n \<Longrightarrow> unat (c + 1) = Suc (unat c)"
proof -
  assume "c < n"
  moreover have "unat n < 2 ^ LENGTH('a)" by simp
  ultimately have "Suc (unat c) < 2 ^ LENGTH('a)"
    unfolding word_less_nat_alt by linarith
  then show ?thesis by (simp add: unat_plus_if')
qed

lemma unat_diff_word: "(b::'a::len word) \<le> a \<Longrightarrow> unat (a - b) = unat a - unat b"
  by (simp add: unat_sub)

lemma word_eq_unat_iff: "(a::'a::len word) = b \<longleftrightarrow> unat a = unat b"
  by (simp add: word_unat_eq_iff)

text \<open>Bit \<open>n\<close> of a value assembled byte by byte comes from byte \<open>n div 8\<close>.\<close>

lemma bit_assemble:
  "bit (foldl (\<lambda>acc i. acc OR push_bit (8 * i) (ucast (f i :: byte))) (0::'a::len word) [0..<k]) n \<longleftrightarrow>
     n < 8 * k \<and> n < LENGTH('a) \<and> bit (f (n div 8)) (n mod 8)"
proof (induction k)
  case (Suc k)
  have "bit (push_bit (8 * k) (ucast (f k) :: 'a word)) n \<longleftrightarrow>
      n < LENGTH('a) \<and> 8 * k \<le> n \<and> bit (f k) (n - 8 * k)"
    by (auto simp: bit_simps)
  moreover have "bit (f k) (n - 8 * k) \<longleftrightarrow> n < 8 * Suc k \<and> bit (f (n div 8)) (n mod 8)"
    if "8 * k \<le> n"
  proof (cases "n < 8 * Suc k")
    case True
    with that have "n div 8 = k" by (simp add: div_nat_eqI)
    moreover from this have "n mod 8 = n - 8 * k"
      by (simp add: minus_mult_div_eq_mod [symmetric])
    ultimately show ?thesis using True by simp
  next
    case False
    then show ?thesis by (auto dest!: bit_imp_le_length)
  qed
  ultimately show ?case
    using Suc by (auto simp: bit_or_iff)
qed simp

lemma foldl_cong_upt:
  "(\<And>i acc. i < k \<Longrightarrow> g acc i = h acc i) \<Longrightarrow> foldl g a [0..<k] = foldl h a [0..<k]"
  by (rule foldl_cong) auto

end
