(* ===== verification/CLib.thy ===== *)
theory CLib
  imports Prelude
begin

text \<open>
  The parts of the C and POSIX library the program calls on strings and addresses, as the
  standards (and glibc, where they leave a choice) define them in the \<open>C\<close> locale:
  \<open>isspace\<close>, \<open>strcasecmp\<close>, \<open>strchr\<close>/\<open>strrchr\<close> followed by the cut the callers make,
  \<open>strtol\<close> in base 10, \<open>fgets\<close>, \<open>inet_pton\<close>/\<open>inet_ntop\<close> for \<open>AF_INET\<close> and
  \<open>htonl\<close> on a little-endian host. A C string is the list of its characters before the
  terminating NUL; an IPv4 address is the 32-bit \<open>s_addr\<close>, whose bytes in memory are the
  four octets in network order.
\<close>

section \<open>Characters and strings\<close>

abbreviation NUL :: char where "NUL \<equiv> CHR 0x00"
abbreviation NL :: char where "NL \<equiv> CHR 0x0A"

definition cstr :: "string \<Rightarrow> string" where
  "cstr = takeWhile (\<lambda>c. c \<noteq> NUL)"

definition isspace :: "char \<Rightarrow> bool" where
  "isspace c \<longleftrightarrow> c \<in> {CHR '' '', CHR 0x09, CHR 0x0A, CHR 0x0B, CHR 0x0C, CHR 0x0D}"

definition isdigit :: "char \<Rightarrow> bool" where
  "isdigit c \<longleftrightarrow> 48 \<le> (of_char c :: nat) \<and> (of_char c :: nat) \<le> 57"

definition digit_val :: "char \<Rightarrow> nat" where
  "digit_val c = of_char c - 48"

definition tolower :: "char \<Rightarrow> char" where
  "tolower c = (let n = (of_char c :: nat) in if 65 \<le> n \<and> n \<le> 90 then char_of (n + 32) else c)"

text \<open>\<open>strcasecmp(a, b) == 0\<close>.\<close>

definition strcaseeq :: "string \<Rightarrow> string \<Rightarrow> bool" where
  "strcaseeq a b \<longleftrightarrow> map tolower a = map tolower b"

text \<open>\<open>p = strchr(s, c); *p = '\0'\<close>: the string before the first \<open>c\<close> and the one after it;
  \<open>None\<close> when there is none. \<open>cut_last\<close> is the same with \<open>strrchr\<close>.\<close>

fun cut_first :: "char \<Rightarrow> string \<Rightarrow> (string \<times> string) option" where
  "cut_first c [] = None"
| "cut_first c (x # xs) =
     (if x = c then Some ([], xs) else map_option (\<lambda>(a, b). (x # a, b)) (cut_first c xs))"

definition cut_last :: "char \<Rightarrow> string \<Rightarrow> (string \<times> string) option" where
  "cut_last c s = map_option (\<lambda>(a, b). (rev b, rev a)) (cut_first c (rev s))"

text \<open>The longest prefix of digits and its value; \<open>strtol(s, &end, 10)\<close>: \<open>None\<close> when no
  conversion is made (\<open>end == s\<close>), else the value, clamped to the range of \<open>long\<close>, and the
  string at \<open>end\<close>.\<close>

definition digits_value :: "string \<Rightarrow> nat" where
  "digits_value ds = foldl (\<lambda>v d. 10 * v + digit_val d) 0 ds"

definition clamp_long :: "int \<Rightarrow> int" where
  "clamp_long v = max (- (2 ^ 63)) (min (2 ^ 63 - 1) v)"

definition strtol10 :: "string \<Rightarrow> (int \<times> string) option" where
  "strtol10 s =
     (let t = dropWhile isspace s;
          (neg, u) = (case t of
             [] \<Rightarrow> (False, [])
           | c # u \<Rightarrow> if c = CHR ''-'' then (True, u) else if c = CHR ''+'' then (False, u) else (False, t));
          ds = takeWhile isdigit u
      in if ds = [] then None
         else Some (clamp_long (if neg then - int (digits_value ds) else int (digits_value ds)),
                    dropWhile isdigit u))"

text \<open>\<open>fgets\<close> with room for \<open>n\<close> characters (and the NUL), and the sequence of reads of a whole
  file with a buffer of that size.\<close>

fun fgets :: "nat \<Rightarrow> string \<Rightarrow> string \<times> string" where
  "fgets 0 s = ([], s)"
| "fgets (Suc n) [] = ([], [])"
| "fgets (Suc n) (c # s) =
     (if c = NL then ([c], s) else (case fgets n s of (l, r) \<Rightarrow> (c # l, r)))"

lemma fgets_rest_le: "length (snd (fgets n s)) \<le> length s"
  by (induction n s rule: fgets.induct) (auto split: prod.splits)

lemma fgets_rest_less: "s \<noteq> [] \<Longrightarrow> length (snd (fgets (Suc n) s)) < length s"
  using fgets_rest_le by (cases s) (auto split: prod.splits simp: less_Suc_eq_le, metis snd_conv)

function fgets_all :: "nat \<Rightarrow> string \<Rightarrow> string list" where
  "fgets_all n s = (if s = [] then [] else (case fgets (Suc n) s of (l, r) \<Rightarrow> l # fgets_all n r))"
  by pat_completeness auto
termination
  by (relation "measure (\<lambda>(n, s). length s)") (use fgets_rest_less in \<open>auto, metis snd_conv\<close>)

declare fgets_all.simps [simp del]

section \<open>IPv4 addresses\<close>

text \<open>The four bytes of a 32-bit integer in the memory of a little-endian host, and the load
  of four bytes from memory.\<close>

definition store32 :: "u32 \<Rightarrow> bytes" where
  "store32 x = map (\<lambda>i. ucast (drop_bit (8 * i) x)) [0..<4]"

definition load32 :: "bytes \<Rightarrow> u32" where
  "load32 bs = foldl (\<lambda>acc i. acc OR push_bit (8 * i) (ucast (bs ! i))) 0 [0..<4]"

definition htonl :: "u32 \<Rightarrow> u32" where
  "htonl x = load32 (rev (store32 x))"

text \<open>One octet of a dotted address: one to three digits, no leading zero, at most 255.\<close>

definition parse_octet :: "string \<Rightarrow> byte option" where
  "parse_octet ds =
     (if ds = [] \<or> \<not> list_all isdigit ds \<or> (length ds > 1 \<and> hd ds = CHR ''0'') \<or> digits_value ds > 255
      then None else Some (of_nat (digits_value ds)))"

definition inet_pton :: "string \<Rightarrow> u32 option" where
  "inet_pton s =
     (case cut_first CHR ''.'' s of None \<Rightarrow> None | Some (a, s1) \<Rightarrow>
        (case cut_first CHR ''.'' s1 of None \<Rightarrow> None | Some (b, s2) \<Rightarrow>
           (case cut_first CHR ''.'' s2 of None \<Rightarrow> None | Some (c, d) \<Rightarrow>
              (case (parse_octet a, parse_octet b, parse_octet c, parse_octet d) of
                 (Some w, Some x, Some y, Some z) \<Rightarrow> Some (load32 [w, x, y, z])
               | _ \<Rightarrow> None))))"

definition digit_char :: "nat \<Rightarrow> char" where
  "digit_char d = char_of (48 + d)"

fun show_nat :: "nat \<Rightarrow> string" where
  "show_nat n = (if n < 10 then [digit_char n] else show_nat (n div 10) @ [digit_char (n mod 10)])"

declare show_nat.simps [simp del]

definition inet_ntop :: "u32 \<Rightarrow> string" where
  "inet_ntop a =
     (let octet = (\<lambda>i. show_nat (unat (store32 a ! i)))
      in octet 0 @ ''.'' @ octet 1 @ ''.'' @ octet 2 @ ''.'' @ octet 3)"

section \<open>Lemmas: strings\<close>

lemma cut_first_Some:
  "cut_first c s = Some (a, b) \<longleftrightarrow> s = a @ c # b \<and> c \<notin> set a"
proof (induction s arbitrary: a)
  case (Cons x s)
  show ?case
  proof (cases a)
    case (Cons y a')
    with Cons.IH [of a'] show ?thesis by (cases "cut_first c s") auto
  qed auto
qed simp

lemma cut_first_None: "cut_first c s = None \<longleftrightarrow> c \<notin> set s"
  by (induction s) auto

lemma cut_first_append [simp]: "c \<notin> set a \<Longrightarrow> cut_first c (a @ c # b) = Some (a, b)"
  by (simp add: cut_first_Some)

lemma cut_last_Some: "cut_last c s = Some (a, b) \<longleftrightarrow> s = a @ c # b \<and> c \<notin> set b"
proof -
  have "cut_last c s = Some (a, b) \<longleftrightarrow> cut_first c (rev s) = Some (rev b, rev a)"
    by (cases "cut_first c (rev s)") (auto simp: cut_last_def)
  also have "\<dots> \<longleftrightarrow> rev s = rev (a @ c # b) \<and> c \<notin> set b"
    by (simp add: cut_first_Some)
  finally show ?thesis by (simp only: rev_is_rev_conv)
qed

lemma fgets_append: "fgets n s = (l, r) \<Longrightarrow> s = l @ r \<and> length l \<le> n"
  by (induction n s arbitrary: l r rule: fgets.induct) (auto split: if_splits prod.splits)

lemma digit_char_of: "d < 10 \<Longrightarrow> of_char (digit_char d) = (48 + d :: nat)"
  by (simp add: digit_char_def of_char_of)

lemma isdigit_digit_char [simp]: "d < 10 \<Longrightarrow> isdigit (digit_char d)"
  by (simp add: isdigit_def digit_char_of)

lemma digit_val_digit_char [simp]: "d < 10 \<Longrightarrow> digit_val (digit_char d) = d"
  by (simp add: digit_val_def digit_char_of)

lemma digits_value_snoc: "digits_value (ds @ [d]) = 10 * digits_value ds + digit_val d"
  by (simp add: digits_value_def)

lemma show_nat_digits: "list_all isdigit (show_nat n) \<and> show_nat n \<noteq> [] \<and> digits_value (show_nat n) = n"
proof (induction n rule: show_nat.induct)
  case (1 n)
  show ?case
  proof (cases "n < 10")
    case True
    then show ?thesis by (simp add: show_nat.simps [of n] digits_value_def)
  next
    case False
    with "1.IH" show ?thesis by (simp add: show_nat.simps [of n] digits_value_snoc)
  qed
qed

lemma show_nat_no_dot [simp]: "CHR ''.'' \<notin> set (show_nat n)"
  using show_nat_digits [of n] by (auto simp: list_all_iff isdigit_def)

lemma show_nat_lead: "0 < n \<Longrightarrow> hd (show_nat n) \<noteq> CHR ''0''"
proof (induction n rule: show_nat.induct)
  case (1 n)
  show ?case
  proof (cases "n < 10")
    case True
    have "of_char (digit_char n) \<noteq> (48::nat)"
      using True \<open>0 < n\<close> by (simp add: digit_char_of)
    then have "digit_char n \<noteq> CHR ''0''" by auto
    with True show ?thesis by (simp add: show_nat.simps [of n])
  next
    case False
    then show ?thesis
      using "1.IH" show_nat_digits [of "n div 10"] by (simp add: show_nat.simps [of n])
  qed
qed

lemma show_nat_length: "n < 10 ^ Suc k \<Longrightarrow> length (show_nat n) \<le> Suc k"
proof (induction k arbitrary: n)
  case 0
  then show ?case by (simp add: show_nat.simps [of n])
next
  case (Suc k)
  then have "n div 10 < 10 ^ Suc k" by (simp add: less_mult_imp_div_less)
  with Suc.IH [of "n div 10"] show ?case by (simp add: show_nat.simps [of n])
qed

lemma show_nat_length_le: "n < 256 \<Longrightarrow> length (show_nat n) \<le> 3"
  by (simp add: show_nat.simps [of n] show_nat.simps [of "n div 10"] show_nat.simps [of "n div 10 div 10"])

lemma show_nat_length_5: "n < 65536 \<Longrightarrow> length (show_nat n) \<le> 5"
  by (simp add: show_nat.simps [of n] show_nat.simps [of "n div 10"] show_nat.simps [of "n div 100"]
      show_nat.simps [of "n div 1000"] show_nat.simps [of "n div 10000"] div_mult2_eq [symmetric])

lemma parse_octet_show [simp]: "parse_octet (show_nat (unat (b :: byte))) = Some b"
proof -
  have "unat b < 256" using unsigned_less [of b] by simp
  moreover have "length (show_nat (unat b)) > 1 \<longrightarrow> hd (show_nat (unat b)) \<noteq> CHR ''0''"
    using show_nat_lead [of "unat b"] by (cases "unat b = 0") (auto simp: show_nat.simps [of 0])
  ultimately show ?thesis
    using show_nat_digits [of "unat b"] by (auto simp: parse_octet_def)
qed

section \<open>Lemmas: addresses\<close>

lemma length_store32 [simp]: "length (store32 x) = 4"
  by (simp add: store32_def)

lemma upt_4: "[0..<4] = [0, 1, 2, 3::nat]"
  by (simp add: upt_rec)

lemma store32_expand: "store32 x = [store32 x ! 0, store32 x ! 1, store32 x ! 2, store32 x ! 3]"
  by (simp add: store32_def upt_4)

lemma bit_load32: "bit (load32 bs) n \<longleftrightarrow> n < 32 \<and> bit (bs ! (n div 8)) (n mod 8)"
  by (auto simp: load32_def bit_assemble)

lemma bit_store32: "k < 4 \<Longrightarrow> j < 8 \<Longrightarrow> bit (store32 x ! k) j \<longleftrightarrow> bit x (8 * k + j)"
  by (auto simp: store32_def bit_simps)

lemma load_store32 [simp]: "load32 (store32 x) = x"
  by (rule bit_word_eqI) (simp add: bit_load32 bit_store32 less_mult_imp_div_less)

lemma store_load32 [simp]: "length bs = 4 \<Longrightarrow> store32 (load32 bs) = bs"
  by (rule nth_equalityI) (auto intro!: bit_word_eqI simp: bit_store32 bit_load32)

interpretation address: codec store32 load32 4
  by unfold_locales simp_all

lemma bit_htonl: "bit (htonl x) n \<longleftrightarrow> n < 32 \<and> bit x (8 * (3 - n div 8) + n mod 8)"
proof (cases "n < 32")
  case True
  then have "n div 8 < 4" by (simp add: less_mult_imp_div_less)
  then show ?thesis using True
    by (simp add: htonl_def bit_load32 rev_nth bit_store32)
qed (simp add: htonl_def bit_load32)

lemma htonl_htonl [simp]: "htonl (htonl x) = x"
  by (rule address.enc_eq_iff [THEN iffD1]) (simp add: htonl_def)

lemma inet_pton_ntop [simp]: "inet_pton (inet_ntop a) = Some a"
  using arg_cong [OF store32_expand [of a], of load32]
  by (simp add: inet_pton_def inet_ntop_def Let_def del: store32_expand)

lemma inet_ntop_length: "length (inet_ntop a) < 16"
proof -
  have "length (show_nat (unat (b :: byte))) \<le> 3" for b
    using show_nat_length_le [of "unat b"] unsigned_less [of b] by simp
  from this [of "store32 a ! 0"] this [of "store32 a ! 1"] this [of "store32 a ! 2"]
    this [of "store32 a ! 3"]
  show ?thesis by (simp add: inet_ntop_def Let_def)
qed

lemma strtol10_show [simp]: "n < 2 ^ 63 \<Longrightarrow> strtol10 (show_nat n) = Some (int n, [])"
proof -
  assume n: "n < 2 ^ 63"
  obtain c cs where s: "show_nat n = c # cs" and d: "list_all isdigit (c # cs)"
    using show_nat_digits [of n] by (cases "show_nat n") auto
  then have "\<not> isspace c" "c \<noteq> CHR ''-''" "c \<noteq> CHR ''+''"
    by (auto simp: isdigit_def isspace_def)
  moreover have "takeWhile isdigit (c # cs) = c # cs" "dropWhile isdigit (c # cs) = []"
    using d by (auto simp: list_all_iff takeWhile_eq_all_conv dropWhile_eq_Nil_conv)
  moreover have "clamp_long (int n) = int n" using n by (simp add: clamp_long_def)
  ultimately show ?thesis
    using conjunct2 [OF conjunct2 [OF show_nat_digits [of n]]]
    by (simp only: s strtol10_def Let_def dropWhile.simps if_False list.case prod.case list.distinct)
qed

end
