(* ===== verification/Replay.thy ===== *)
theory Replay
  imports Prelude
begin

text \<open>
  The sliding replay window of the data channel (src/src/session.c,
  \<open>replay_bit_get\<close> to \<open>replay_check_and_mark\<close>): a bitmap of
  \<open>SESSION_REPLAY_WINDOW_BITS\<close> bits indexed by the counter modulo the window width.
  The three fields of \<open>session_t\<close> the check reads and writes are the record
  \<open>replay_state\<close>, which the session record extends. The abstract specification is the
  set of counters admitted so far; the refinement shows that the bitmap decides exactly it.
\<close>

section \<open>Model\<close>

definition SESSION_REPLAY_WINDOW_BITS :: nat where
  [const_defs]: "SESSION_REPLAY_WINDOW_BITS = 1024"

definition SESSION_REPLAY_WINDOW_BYTES :: nat where
  [const_defs]: "SESSION_REPLAY_WINDOW_BYTES = SESSION_REPLAY_WINDOW_BITS div 8"

record replay_state =
  highest_rx_counter :: u64
  have_received_any :: bool
  replay_window :: bytes

definition replay_slot :: "u64 \<Rightarrow> nat" where
  "replay_slot counter = unat counter mod SESSION_REPLAY_WINDOW_BITS"

definition replay_bit_get :: "bytes \<Rightarrow> u64 \<Rightarrow> bool" where
  "replay_bit_get window counter =
     (let slot = replay_slot counter
      in drop_bit (slot mod 8) (window ! (slot div 8)) AND 1 \<noteq> 0)"

definition replay_bit_set :: "bytes \<Rightarrow> u64 \<Rightarrow> bytes" where
  "replay_bit_set window counter =
     (let slot = replay_slot counter
      in window[slot div 8 := (window ! (slot div 8)) OR push_bit (slot mod 8) 1])"

definition replay_bit_clear :: "bytes \<Rightarrow> u64 \<Rightarrow> bytes" where
  "replay_bit_clear window counter =
     (let slot = replay_slot counter
      in window[slot div 8 := (window ! (slot div 8)) AND NOT (push_bit (slot mod 8) 1)])"

text \<open>The loop \<open>for (uint64_t c = from; c < upto; c++)\<close> over the skipped counters.\<close>

function replay_clear_range :: "bytes \<Rightarrow> u64 \<Rightarrow> u64 \<Rightarrow> bytes" where
  "replay_clear_range window c counter =
     (if c < counter then replay_clear_range (replay_bit_clear window c) (c + 1) counter
      else window)"
  by pat_completeness auto
termination
  by (relation "measure (\<lambda>(w, c, n). unat n - unat c)")
     (auto simp: unat_Suc_word word_less_nat_alt)

declare replay_clear_range.simps [simp del]

definition replay_check_and_mark ::
  "'a replay_state_scheme \<Rightarrow> u64 \<Rightarrow> 'a replay_state_scheme \<times> bool" where
  "replay_check_and_mark s counter =
     (if \<not> have_received_any s then
        (s\<lparr>replay_window := replay_bit_set (replay_window s) counter,
           highest_rx_counter := counter,
           have_received_any := True\<rparr>, True)
      else if counter > highest_rx_counter s then
        (let advance = counter - highest_rx_counter s;
             window =
               (if unat advance \<ge> SESSION_REPLAY_WINDOW_BITS
                then replicate SESSION_REPLAY_WINDOW_BYTES 0
                else replay_clear_range (replay_window s) (highest_rx_counter s + 1) counter)
         in (s\<lparr>replay_window := replay_bit_set window counter,
               highest_rx_counter := counter\<rparr>, True))
      else
        (let age = highest_rx_counter s - counter
         in if unat age \<ge> SESSION_REPLAY_WINDOW_BITS then (s, False)
            else if replay_bit_get (replay_window s) counter then (s, False)
            else (s\<lparr>replay_window := replay_bit_set (replay_window s) counter\<rparr>, True)))"

section \<open>Abstract specification\<close>

text \<open>
  The promise of the check, over the set \<open>S\<close> of counters admitted since the last
  (re)handshake: a counter is admitted when it is the first, or ahead of everything admitted,
  or within the window and not admitted before.
\<close>

definition replay_admissible :: "u64 set \<Rightarrow> u64 \<Rightarrow> bool" where
  "replay_admissible S c \<longleftrightarrow>
     S = {} \<or> c > Max S \<or>
     (unat (Max S) - unat c < SESSION_REPLAY_WINDOW_BITS \<and> c \<notin> S)"

definition replay_inv :: "'a replay_state_scheme \<Rightarrow> u64 set \<Rightarrow> bool" where
  "replay_inv s S \<longleftrightarrow>
     length (replay_window s) = SESSION_REPLAY_WINDOW_BYTES \<and>
     (have_received_any s \<longleftrightarrow> S \<noteq> {}) \<and>
     (S = {} \<longrightarrow> replay_window s = replicate SESSION_REPLAY_WINDOW_BYTES 0) \<and>
     (S \<noteq> {} \<longrightarrow>
        highest_rx_counter s = Max S \<and>
        (\<forall>c \<le> highest_rx_counter s.
           unat (highest_rx_counter s) - unat c < SESSION_REPLAY_WINDOW_BITS \<longrightarrow>
           (replay_bit_get (replay_window s) c \<longleftrightarrow> c \<in> S)))"

section \<open>The bitmap\<close>

text \<open>
  What the window algorithm relies on: a bitmap indexed by a slot function, with the usual
  read-after-write laws. Two counters share a bit exactly when they share a slot.
\<close>

locale slot_bitmap =
  fixes get :: "'w \<Rightarrow> 'c \<Rightarrow> bool"
    and set :: "'w \<Rightarrow> 'c \<Rightarrow> 'w"
    and clear :: "'w \<Rightarrow> 'c \<Rightarrow> 'w"
    and valid :: "'w \<Rightarrow> bool"
    and slot :: "'c \<Rightarrow> nat"
  assumes get_set: "valid w \<Longrightarrow> get (set w c) d \<longleftrightarrow> slot d = slot c \<or> get w d"
    and get_clear: "valid w \<Longrightarrow> get (clear w c) d \<longleftrightarrow> slot d \<noteq> slot c \<and> get w d"
    and valid_set: "valid w \<Longrightarrow> valid (set w c)"
    and valid_clear: "valid w \<Longrightarrow> valid (clear w c)"
begin

lemma get_foldl_clear:
  "valid w \<Longrightarrow> valid (foldl clear w cs) \<and>
     (get (foldl clear w cs) d \<longleftrightarrow> slot d \<notin> slot ` List.set cs \<and> get w d)"
  by (induction cs arbitrary: w) (auto simp: get_clear valid_clear)

end

lemma bit_of_and_one: "drop_bit n (b::byte) AND 1 \<noteq> 0 \<longleftrightarrow> bit b n"
  by (simp add: and_one_eq bit_iff_odd_drop_bit odd_iff_mod_2_eq_one)

lemma replay_slot_less: "replay_slot c < 1024"
  by (simp add: replay_slot_def const_defs)

lemma replay_bit_get_bit:
  "replay_bit_get w c = bit (w ! (replay_slot c div 8)) (replay_slot c mod 8)"
  by (simp add: replay_bit_get_def Let_def bit_of_and_one)

lemma slot_eq_iff: "(a::nat) = b \<longleftrightarrow> a div 8 = b div 8 \<and> a mod 8 = b mod 8"
  by (metis div_mult_mod_eq)

lemma bit_or_push_byte: "n < 8 \<Longrightarrow> bit ((b::byte) OR 2 ^ k) n \<longleftrightarrow> n = k \<or> bit b n"
  by (auto simp: bit_simps)

lemma bit_and_not_push_byte:
  "n < 8 \<Longrightarrow> bit ((b::byte) AND NOT (2 ^ k)) n \<longleftrightarrow> n \<noteq> k \<and> bit b n"
  by (auto simp: bit_simps)

interpretation window_bits: slot_bitmap replay_bit_get replay_bit_set replay_bit_clear
  "\<lambda>w. length w = SESSION_REPLAY_WINDOW_BYTES" replay_slot
proof unfold_locales
  fix w :: bytes and c d :: u64
  assume len: "length w = SESSION_REPLAY_WINDOW_BYTES"
  have c: "replay_slot c div 8 < length w"
    using len replay_slot_less [of c] by (simp add: const_defs)
  show "replay_bit_get (replay_bit_set w c) d \<longleftrightarrow> replay_slot d = replay_slot c \<or> replay_bit_get w d"
    using c by (auto simp: replay_bit_get_bit replay_bit_set_def Let_def nth_list_update
        bit_or_push_byte slot_eq_iff [of "replay_slot d"])
  show "replay_bit_get (replay_bit_clear w c) d \<longleftrightarrow> replay_slot d \<noteq> replay_slot c \<and> replay_bit_get w d"
    using c by (auto simp: replay_bit_get_bit replay_bit_clear_def Let_def nth_list_update
        bit_and_not_push_byte slot_eq_iff [of "replay_slot d"])
  show "length (replay_bit_set w c) = SESSION_REPLAY_WINDOW_BYTES"
    using len by (simp add: replay_bit_set_def Let_def)
  show "length (replay_bit_clear w c) = SESSION_REPLAY_WINDOW_BYTES"
    using len by (simp add: replay_bit_clear_def Let_def)
qed

text \<open>The clearing loop clears exactly the slots of the skipped counters.\<close>

lemma replay_clear_range_bits:
  assumes "length w = SESSION_REPLAY_WINDOW_BYTES"
  shows "length (replay_clear_range w c n) = SESSION_REPLAY_WINDOW_BYTES \<and>
    (replay_bit_get (replay_clear_range w c n) d \<longleftrightarrow>
       (\<forall>e. c \<le> e \<and> e < n \<longrightarrow> replay_slot d \<noteq> replay_slot e) \<and> replay_bit_get w d)"
  using assms
proof (induction w c n rule: replay_clear_range.induct)
  case (1 w c n)
  show ?case
  proof (cases "c < n")
    case True
    have len: "length (replay_bit_clear w c) = SESSION_REPLAY_WINDOW_BYTES"
      using "1.prems" by (rule window_bits.valid_clear)
    have split: "(c \<le> e \<and> e < n) \<longleftrightarrow> e = c \<or> (c + 1 \<le> e \<and> e < n)" for e
      using True unat_Suc_word [OF True]
      by (auto simp: word_less_nat_alt word_le_nat_alt word_eq_unat_iff)
    show ?thesis
      using True "1.IH" [OF True len] window_bits.get_clear [OF "1.prems", of c d]
      by (auto simp: replay_clear_range.simps [of w c n] split)
  next
    case False
    with "1.prems" show ?thesis
      by (auto simp: replay_clear_range.simps [of w c n])
  qed
qed

lemma replay_bit_get_zero: "\<not> replay_bit_get (replicate SESSION_REPLAY_WINDOW_BYTES 0) c"
  using replay_slot_less [of c] by (simp add: replay_bit_get_bit const_defs)

text \<open>Within a window of 1024 consecutive counters, slots are pairwise distinct.\<close>

lemma replay_slot_inj_window:
  assumes "replay_slot a = replay_slot b" and "a \<le> b" and "unat b - unat a < SESSION_REPLAY_WINDOW_BITS"
  shows "a = b"
proof -
  have "unat a \<le> unat b" using assms(2) by (simp add: word_le_nat_alt)
  moreover have "(unat b - unat a) mod 1024 = 0"
    using assms(1) \<open>unat a \<le> unat b\<close> mod_eq_dvd_iff_nat [of "unat a" "unat b" 1024]
    by (simp add: replay_slot_def const_defs)
  ultimately show ?thesis
    using assms(3) by (simp add: const_defs word_eq_unat_iff)
qed

lemma replay_slot_window_iff:
  "d \<le> c \<Longrightarrow> unat c - unat d < SESSION_REPLAY_WINDOW_BITS \<Longrightarrow>
     replay_slot d = replay_slot c \<longleftrightarrow> d = c"
  using replay_slot_inj_window by blast

section \<open>Refinement\<close>

text \<open>The window after sliding forward to \<open>c\<close>: the bits of the counters still inside it.\<close>

lemma replay_slide_bits:
  assumes inv: "replay_inv s S" and ne: "S \<noteq> {}" and ahead: "Max S < c"
    and d: "d \<le> c" and near: "unat c - unat d < SESSION_REPLAY_WINDOW_BITS" and "d \<noteq> c"
  shows "replay_bit_get
      (if unat (c - highest_rx_counter s) \<ge> SESSION_REPLAY_WINDOW_BITS
       then replicate SESSION_REPLAY_WINDOW_BYTES 0
       else replay_clear_range (replay_window s) (highest_rx_counter s + 1) c) d \<longleftrightarrow> d \<in> S"
proof -
  let ?h = "highest_rx_counter s"
  have h: "?h = Max S" and len: "length (replay_window s) = SESSION_REPLAY_WINDOW_BYTES"
    using inv ne by (auto simp: replay_inv_def)
  have hc: "?h < c" using ahead h by simp
  have adv: "unat (c - ?h) = unat c - unat ?h"
    using hc by (simp add: unat_diff_word)
  have above: "d \<notin> S" if "?h < d"
    using that h by (metis Max_ge finite not_le)
  show ?thesis
  proof (cases "unat (c - ?h) \<ge> SESSION_REPLAY_WINDOW_BITS")
    case True
    then have "?h < d"
      using adv near by (auto simp: word_less_nat_alt)
    with True above show ?thesis
      by (simp add: replay_bit_get_zero)
  next
    case False
    have step: "?h + 1 \<le> e \<longleftrightarrow> ?h < e" for e
      using unat_Suc_word [OF hc] by (auto simp: word_le_nat_alt word_less_nat_alt)
    show ?thesis
    proof (cases "?h < d")
      case True
      then have "\<not> (\<forall>e. ?h + 1 \<le> e \<and> e < c \<longrightarrow> replay_slot d \<noteq> replay_slot e)"
        using d \<open>d \<noteq> c\<close> step by fastforce
      with False above True replay_clear_range_bits [OF len, of "?h + 1" c d]
      show ?thesis by auto
    next
      case le: False
      have "replay_slot d \<noteq> replay_slot e" if "?h < e" "e < c" for e
        using that le near replay_slot_window_iff [of d e]
        by (auto simp: word_less_nat_alt word_le_nat_alt)
      moreover have "replay_bit_get (replay_window s) d \<longleftrightarrow> d \<in> S"
        using inv ne le near hc by (auto simp: replay_inv_def not_less word_less_nat_alt word_le_nat_alt)
      ultimately show ?thesis
        using False replay_clear_range_bits [OF len, of "?h + 1" c d] step by auto
    qed
  qed
qed

lemma replay_first:
  assumes "replay_inv s {}"
  shows "snd (replay_check_and_mark s c) \<and> replay_inv (fst (replay_check_and_mark s c)) {c}"
proof -
  let ?z = "replicate SESSION_REPLAY_WINDOW_BYTES (0::byte)"
  have z: "replay_window s = ?z" "\<not> have_received_any s"
    using assms by (auto simp: replay_inv_def)
  have "replay_bit_get (replay_bit_set ?z c) d \<longleftrightarrow> d = c"
    if "d \<le> c" "unat c - unat d < SESSION_REPLAY_WINDOW_BITS" for d
    using window_bits.get_set [of ?z c d] replay_slot_window_iff [OF that]
    by (simp add: replay_bit_get_zero)
  moreover have "length (replay_bit_set ?z c) = SESSION_REPLAY_WINDOW_BYTES"
    by (simp add: window_bits.valid_set)
  ultimately show ?thesis
    using z by (simp add: replay_check_and_mark_def replay_inv_def)
qed

lemma replay_ahead:
  assumes inv: "replay_inv s S" and ne: "S \<noteq> {}" and ahead: "Max S < c"
  shows "snd (replay_check_and_mark s c) \<and>
    replay_inv (fst (replay_check_and_mark s c)) (insert c S)"
proof -
  let ?w = "if unat (c - highest_rx_counter s) \<ge> SESSION_REPLAY_WINDOW_BITS
       then replicate SESSION_REPLAY_WINDOW_BYTES 0
       else replay_clear_range (replay_window s) (highest_rx_counter s + 1) c"
  have facts: "highest_rx_counter s = Max S" "have_received_any s"
    "length (replay_window s) = SESSION_REPLAY_WINDOW_BYTES"
    using inv ne by (auto simp: replay_inv_def)
  have len: "length ?w = SESSION_REPLAY_WINDOW_BYTES"
    using replay_clear_range_bits [OF facts(3)] by simp
  have max: "Max (insert c S) = c"
    using ahead Max_insert [OF finite ne, of c]
    by (simp add: max.absorb1 less_imp_le del: Max_less_iff Max_insert)
  have "replay_bit_get (replay_bit_set ?w c) d \<longleftrightarrow> d \<in> insert c S"
    if "d \<le> c" "unat c - unat d < SESSION_REPLAY_WINDOW_BITS" for d
    using window_bits.get_set [OF len, of c d] replay_slot_window_iff [OF that]
      replay_slide_bits [OF inv ne ahead that] by (cases "d = c") simp_all
  with max facts ahead window_bits.valid_set [OF len, of c] show ?thesis
    by (simp add: replay_check_and_mark_def replay_inv_def Let_def)
qed

lemma replay_behind:
  assumes inv: "replay_inv s S" and ne: "S \<noteq> {}" and behind: "c \<le> Max S"
  shows "(unat (Max S) - unat c < SESSION_REPLAY_WINDOW_BITS \<and> c \<notin> S \<longrightarrow>
      snd (replay_check_and_mark s c) \<and>
      replay_inv (fst (replay_check_and_mark s c)) (insert c S)) \<and>
    (\<not> (unat (Max S) - unat c < SESSION_REPLAY_WINDOW_BITS \<and> c \<notin> S) \<longrightarrow>
      replay_check_and_mark s c = (s, False))"
proof -
  have facts: "highest_rx_counter s = Max S" "have_received_any s"
    "length (replay_window s) = SESSION_REPLAY_WINDOW_BYTES"
    "\<And>d. d \<le> Max S \<Longrightarrow> unat (Max S) - unat d < SESSION_REPLAY_WINDOW_BITS \<Longrightarrow>
       replay_bit_get (replay_window s) d \<longleftrightarrow> d \<in> S"
    using inv ne by (auto simp: replay_inv_def)
  have age: "unat (Max S - c) = unat (Max S) - unat c"
    using behind by (simp add: unat_diff_word)
  have slots: "replay_slot d = replay_slot c \<longleftrightarrow> d = c"
    if d: "d \<le> Max S" "unat (Max S) - unat d < SESSION_REPLAY_WINDOW_BITS"
      and c: "unat (Max S) - unat c < SESSION_REPLAY_WINDOW_BITS" for d
  proof (cases "d \<le> c")
    case True
    moreover have "unat c - unat d < SESSION_REPLAY_WINDOW_BITS"
      using d c behind by (simp add: word_le_nat_alt)
    ultimately show ?thesis by (rule replay_slot_window_iff)
  next
    case False
    moreover have "unat d - unat c < SESSION_REPLAY_WINDOW_BITS"
      using d c by (simp add: word_le_nat_alt)
    ultimately show ?thesis
      using replay_slot_window_iff [of c d] by force
  qed
  have max: "Max (insert c S) = Max S"
    using behind ne Max_insert [OF finite ne, of c] by (simp add: max_def del: Max_ge_iff Max_insert)
  show ?thesis
  proof (cases "unat (Max S) - unat c < SESSION_REPLAY_WINDOW_BITS \<and> c \<notin> S")
    case True
    then have "replay_check_and_mark s c =
        (s\<lparr>replay_window := replay_bit_set (replay_window s) c\<rparr>, True)"
      using facts age behind
      by (simp add: replay_check_and_mark_def Let_def del: Max_less_iff Max_ge_iff)
    moreover have "replay_bit_get (replay_bit_set (replay_window s) c) d \<longleftrightarrow> d \<in> insert c S"
      if "d \<le> Max S" "unat (Max S) - unat d < SESSION_REPLAY_WINDOW_BITS" for d
      using True that slots [OF that] facts(4) [OF that] window_bits.get_set [OF facts(3), of c d]
      by simp
    ultimately show ?thesis
      using True facts(1-3) max window_bits.valid_set [OF facts(3), of c]
      by (simp add: replay_inv_def del: Max_insert Max_ge_iff)
  next
    case False
    then show ?thesis
      using facts age behind
      by (auto simp: replay_check_and_mark_def Let_def simp del: Max_less_iff Max_ge_iff)
  qed
qed

lemma replay_refines_core:
  assumes "replay_inv s S" and "replay_check_and_mark s c = (s', ok)"
  shows "(ok \<longleftrightarrow> replay_admissible S c) \<and>
    replay_inv s' (if ok then insert c S else S) \<and> (\<not> ok \<longrightarrow> s' = s)"
proof (cases "S = {}")
  case True
  with assms replay_first [of s c] show ?thesis
    by (simp add: replay_admissible_def)
next
  case False
  consider (ahead) "Max S < c" | (fresh) "c \<le> Max S" "unat (Max S) - unat c < SESSION_REPLAY_WINDOW_BITS \<and> c \<notin> S"
    | (stale) "c \<le> Max S" "\<not> (unat (Max S) - unat c < SESSION_REPLAY_WINDOW_BITS \<and> c \<notin> S)"
    by (meson not_le)
  then show ?thesis
  proof cases
    case ahead
    then have "replay_admissible S c" by (simp only: replay_admissible_def simp_thms)
    with assms(2) replay_ahead [OF assms(1) False ahead] show ?thesis by simp
  next
    case fresh
    then have "replay_admissible S c" by (simp only: replay_admissible_def simp_thms)
    with assms(2) replay_behind [OF assms(1) False fresh(1)] fresh(2) show ?thesis by simp
  next
    case stale
    then have "\<not> replay_admissible S c"
      using False by (simp only: replay_admissible_def simp_thms not_less)
    with assms replay_behind [OF assms(1) False stale(1)] stale(2) show ?thesis by simp
  qed
qed

interpretation replay: freshness_filter replay_check_and_mark replay_inv
proof unfold_locales
  fix s s' :: "'a replay_state_scheme" and S c
  assume inv: "replay_inv s S"
  show "c \<notin> S \<and> replay_inv s' (insert c S)" if "replay_check_and_mark s c = (s', True)"
  proof -
    have "replay_admissible S c" "replay_inv s' (insert c S)"
      using replay_refines_core [OF inv that] by simp_all
    moreover have "c \<le> Max S" if "c \<in> S"
      using that by (simp add: Max_ge del: Max_ge_iff)
    ultimately show ?thesis
      unfolding replay_admissible_def by (metis empty_iff not_le)
  qed
  show "s' = s" if "replay_check_and_mark s c = (s', False)"
    using replay_refines_core [OF inv that] by simp
qed

text \<open>The check touches no field of the session outside the replay state.\<close>

lemma replay_check_more [frame_simps]:
  "replay_state.more (fst (replay_check_and_mark s c)) = replay_state.more s"
  by (simp add: replay_check_and_mark_def Let_def)

lemma replay_fresh_inv [simp]:
  "replay_inv (s\<lparr>have_received_any := False,
      replay_window := replicate SESSION_REPLAY_WINDOW_BYTES 0\<rparr>) {}"
  by (simp add: replay_inv_def)

lemma replay_admissible_near:
  assumes "c \<notin> S" and "\<forall>a \<in> S. unat a - unat c < SESSION_REPLAY_WINDOW_BITS"
  shows "replay_admissible S c"
proof (cases "S = {}")
  case False
  then have "Max S \<in> S" by simp
  with assms show ?thesis by (simp add: replay_admissible_def)
qed (simp add: replay_admissible_def)

lemma replay_accepts_near:
  assumes "replay_inv s S" and "distinct cs" and "set cs \<inter> S = {}"
    and "\<forall>a \<in> S \<union> set cs. \<forall>b \<in> set cs. unat a - unat b < SESSION_REPLAY_WINDOW_BITS"
  shows "snd (filter_run replay_check_and_mark s cs) = cs"
  using assms
proof (induction cs arbitrary: s S)
  case (Cons c cs)
  obtain s' ok where r: "replay_check_and_mark s c = (s', ok)" by fastforce
  have "replay_admissible S c"
    by (rule replay_admissible_near) (use Cons.prems in auto)
  with replay_refines_core [OF Cons.prems(1) r] have "ok" "replay_inv s' (insert c S)"
    by (auto split: if_splits)
  moreover from this(2) have "snd (filter_run replay_check_and_mark s' cs) = cs"
    by (rule Cons.IH) (use Cons.prems in auto)
  ultimately show ?case
    using r by (simp add: split_beta)
qed simp

section \<open>Properties\<close>

text \<open>C5. The bitmap implements the abstract window: from a state whose admitted counters
  are \<open>S\<close>, \<open>replay_check_and_mark\<close> accepts a counter exactly when the specification
  admits it, the resulting state represents \<open>S\<close> with the counter added, and a rejected
  counter leaves the state unchanged.\<close>

theorem replay_refines_window:
  assumes "replay_inv s S"
  shows "snd (replay_check_and_mark s c) = replay_admissible S c \<and>
    replay_inv (fst (replay_check_and_mark s c)) (if replay_admissible S c then insert c S else S) \<and>
    (\<not> replay_admissible S c \<longrightarrow> fst (replay_check_and_mark s c) = s)"
  using replay_refines_core [OF assms, of c "fst (replay_check_and_mark s c)" "snd (replay_check_and_mark s c)"]
    assms by auto

theorem replay_refines_window_witness:
  "snd (replay_check_and_mark
      \<lparr>highest_rx_counter = 0, have_received_any = False,
       replay_window = replicate SESSION_REPLAY_WINDOW_BYTES 0\<rparr> 7)"
proof -
  have "replay_inv \<lparr>highest_rx_counter = 0, have_received_any = False,
       replay_window = replicate SESSION_REPLAY_WINDOW_BYTES 0\<rparr> {}"
    by (simp add: replay_inv_def)
  from replay_refines_window [OF this, of 7] show ?thesis
    by (simp add: replay_admissible_def)
qed

text \<open>Whatever sequence of counters arrives, in any order and with any repetition, each
  counter is accepted at most once between two handshakes.\<close>

theorem replay_accepts_once:
  assumes "replay_inv s {}" and "filter_run replay_check_and_mark s cs = (s', accepted)"
  shows "distinct accepted \<and> set accepted \<subseteq> set cs \<and> replay_inv s' (set accepted)"
  using replay.run_accepts_once [OF assms] by simp

theorem replay_accepts_once_witness:
  "distinct (snd (filter_run replay_check_and_mark
      \<lparr>highest_rx_counter = 0, have_received_any = False,
       replay_window = replicate SESSION_REPLAY_WINDOW_BYTES 0\<rparr> [5, 3, 5, 3, 2000, 5]))"
proof -
  let ?s = "\<lparr>highest_rx_counter = 0, have_received_any = False,
       replay_window = replicate SESSION_REPLAY_WINDOW_BYTES 0\<rparr>"
  obtain s' acc where r: "filter_run replay_check_and_mark ?s [5, 3, 5, 3, 2000, 5] = (s', acc)"
    by fastforce
  have "replay_inv ?s {}" by (simp add: replay_inv_def)
  from replay_accepts_once [OF this r] r show ?thesis by simp
qed

text \<open>Reordering within the window is tolerated: counters that are pairwise distinct and
  less than \<open>SESSION_REPLAY_WINDOW_BITS\<close> apart are all accepted, in whatever order they
  arrive after a handshake.\<close>

theorem replay_tolerates_reordering:
  assumes "replay_inv s {}" and "distinct cs"
    and "\<forall>a \<in> set cs. \<forall>b \<in> set cs. unat a - unat b < SESSION_REPLAY_WINDOW_BITS"
  shows "snd (filter_run replay_check_and_mark s cs) = cs"
  using replay_accepts_near [OF assms(1,2)] assms(3) by simp

theorem replay_tolerates_reordering_witness:
  "snd (filter_run replay_check_and_mark
      \<lparr>highest_rx_counter = 0, have_received_any = False,
       replay_window = replicate SESSION_REPLAY_WINDOW_BYTES 0\<rparr> [2, 0, 1023, 1]) = [2, 0, 1023, 1]"
  by (rule replay_tolerates_reordering) (simp_all add: replay_inv_def const_defs)

end
