(* ===== verification/Crypto.thy ===== *)
theory Crypto
  imports Prelude
begin

text \<open>
  The cryptography wrapper (src/src/crypto.c, src/include/crypto.h). libsodium is not part
  of the repository: it is the record \<open>sodium\<close> of the functions the wrapper calls, an
  argument of every definition, and what the wrapper relies on are the named laws of the
  section \<^emph>\<open>Documented behaviour of libsodium\<close>. A return code is an \<open>option\<close>: \<open>None\<close> is
  a nonzero code. Randomness is the draw number: the \<open>n\<close>-th call of
  \<open>crypto_kx_keypair\<close> in the life of the process returns \<open>kx_keypair sod n\<close>.

  A function that fills a caller's buffer of \<open>out_len\<close> bytes returns the bytes written.
\<close>

section \<open>Constants and data\<close>

definition CRYPTO_PUBLIC_KEY_BYTES :: nat where [const_defs]: "CRYPTO_PUBLIC_KEY_BYTES = 32"
definition CRYPTO_SECRET_KEY_BYTES :: nat where [const_defs]: "CRYPTO_SECRET_KEY_BYTES = 32"
definition CRYPTO_SESSION_KEY_BYTES :: nat where [const_defs]: "CRYPTO_SESSION_KEY_BYTES = 32"
definition CRYPTO_COUNTER_BYTES :: nat where [const_defs]: "CRYPTO_COUNTER_BYTES = 8"
definition CRYPTO_TAG_BYTES :: nat where [const_defs]: "CRYPTO_TAG_BYTES = 16"

definition CRYPTO_PACKET_OVERHEAD :: nat where
  [const_defs]: "CRYPTO_PACKET_OVERHEAD = CRYPTO_COUNTER_BYTES + CRYPTO_TAG_BYTES"

definition CRYPTO_KEY_TEXT_LEN :: nat where [const_defs]: "CRYPTO_KEY_TEXT_LEN = 45"

text \<open>\<open>crypto_aead_chacha20poly1305_ietf_NPUBBYTES\<close>, the nonce size of the IETF variant.\<close>

definition AEAD_NPUBBYTES :: nat where [const_defs]: "AEAD_NPUBBYTES = 12"

record crypto_session_keys =
  rx :: bytes
  tx :: bytes

datatype crypto_role = CRYPTO_ROLE_INITIATOR | CRYPTO_ROLE_RESPONDER

text \<open>The functions of libsodium the wrapper calls.\<close>

record sodium =
  sodium_init_rc :: int
  kx_keypair :: "nat \<Rightarrow> bytes \<times> bytes"
  scalarmult_base :: "bytes \<Rightarrow> bytes"
  kx_client_session_keys :: "bytes \<Rightarrow> bytes \<Rightarrow> bytes \<Rightarrow> (bytes \<times> bytes) option"
  kx_server_session_keys :: "bytes \<Rightarrow> bytes \<Rightarrow> bytes \<Rightarrow> (bytes \<times> bytes) option"
  aead_encrypt :: "bytes \<Rightarrow> bytes \<Rightarrow> bytes \<Rightarrow> bytes option"
  aead_decrypt :: "bytes \<Rightarrow> bytes \<Rightarrow> bytes \<Rightarrow> bytes option"
  sodium_bin2base64 :: "bytes \<Rightarrow> string"
  sodium_base642bin :: "string \<Rightarrow> nat \<Rightarrow> bytes option"
  sodium_memzero :: "bytes \<Rightarrow> bytes"

section \<open>Operations\<close>

definition crypto_init :: "sodium \<Rightarrow> int" where
  "crypto_init sod = (if sodium_init_rc sod < 0 then -1 else 0)"

text \<open>Returns the key pair and the number of draws made so far.\<close>

definition crypto_generate_keypair :: "sodium \<Rightarrow> nat \<Rightarrow> (bytes \<times> bytes) \<times> nat" where
  "crypto_generate_keypair sod rng = (kx_keypair sod rng, Suc rng)"

definition crypto_derive_public_key :: "sodium \<Rightarrow> bytes \<Rightarrow> bytes" where
  "crypto_derive_public_key sod sk = scalarmult_base sod sk"

definition crypto_derive_session_keys ::
  "sodium \<Rightarrow> crypto_role \<Rightarrow> bytes \<Rightarrow> bytes \<Rightarrow> bytes \<Rightarrow> crypto_session_keys option" where
  "crypto_derive_session_keys sod role local_pk local_sk remote_pk =
     (let rc = (if role = CRYPTO_ROLE_INITIATOR
                then kx_client_session_keys sod local_pk local_sk remote_pk
                else kx_server_session_keys sod local_pk local_sk remote_pk)
      in case rc of None \<Rightarrow> None | Some (r, t) \<Rightarrow> Some \<lparr>rx = r, tx = t\<rparr>)"

definition crypto_encode_base64 :: "sodium \<Rightarrow> bytes \<Rightarrow> string" where
  "crypto_encode_base64 sod data = sodium_bin2base64 sod data"

definition crypto_decode_base64 :: "sodium \<Rightarrow> string \<Rightarrow> nat \<Rightarrow> bytes option" where
  "crypto_decode_base64 sod text expected_len =
     (case sodium_base642bin sod text expected_len of
        None \<Rightarrow> None
      | Some out \<Rightarrow> if length out \<noteq> expected_len then None else Some out)"

text \<open>Byte \<open>i\<close> of a counter, \<open>(unsigned char)(counter >> (8 * i))\<close>.\<close>

definition counter_byte :: "u64 \<Rightarrow> nat \<Rightarrow> byte" where
  "counter_byte counter i = ucast (drop_bit (8 * i) counter)"

definition build_nonce :: "u64 \<Rightarrow> bytes" where
  "build_nonce counter =
     foldl (\<lambda>nonce i. nonce[i := counter_byte counter i])
       (replicate AEAD_NPUBBYTES 0) [0..<CRYPTO_COUNTER_BYTES]"

text \<open>The eight counter bytes \<open>crypto_seal\<close> writes in front of the ciphertext, and the
  loop of \<open>crypto_open\<close> that reads them back.\<close>

definition write_counter :: "u64 \<Rightarrow> bytes" where
  "write_counter counter = map (counter_byte counter) [0..<CRYPTO_COUNTER_BYTES]"

definition read_counter :: "bytes \<Rightarrow> u64" where
  "read_counter inp =
     foldl (\<lambda>counter i. counter OR push_bit (8 * i) (ucast (inp ! i))) 0 [0..<CRYPTO_COUNTER_BYTES]"

definition crypto_seal :: "sodium \<Rightarrow> bytes \<Rightarrow> u64 \<Rightarrow> bytes \<Rightarrow> nat \<Rightarrow> bytes option" where
  "crypto_seal sod key counter plaintext out_len =
     (if out_len < length plaintext + CRYPTO_PACKET_OVERHEAD then None
      else
        (let nonce = build_nonce counter
         in case aead_encrypt sod key nonce plaintext of
              None \<Rightarrow> None
            | Some ciphertext \<Rightarrow> Some (write_counter counter @ ciphertext)))"

text \<open>On success, the plaintext written to \<open>out\<close> and the counter.\<close>

definition crypto_open :: "sodium \<Rightarrow> bytes \<Rightarrow> bytes \<Rightarrow> nat \<Rightarrow> (bytes \<times> u64) option" where
  "crypto_open sod key inp out_len =
     (if length inp < CRYPTO_PACKET_OVERHEAD then None
      else
        (let counter = read_counter inp;
             nonce = build_nonce counter;
             ciphertext_len = length inp - CRYPTO_COUNTER_BYTES
         in if out_len < ciphertext_len - CRYPTO_TAG_BYTES then None
            else case aead_decrypt sod key nonce (drop CRYPTO_COUNTER_BYTES inp) of
                   None \<Rightarrow> None
                 | Some plaintext \<Rightarrow> Some (plaintext, counter)))"

definition crypto_wipe :: "sodium \<Rightarrow> bytes \<Rightarrow> bytes" where
  "crypto_wipe sod buf = sodium_memzero sod buf"

section \<open>Documented behaviour of libsodium\<close>

text \<open>Encrypting succeeds, adds the 16-byte tag, and decrypting under the same key and nonce
  returns the message; a successful decryption strips exactly the tag.\<close>

definition aead_correct :: "sodium \<Rightarrow> bool" where
  "aead_correct sod \<longleftrightarrow>
     (\<forall>key nonce m. \<exists>c. aead_encrypt sod key nonce m = Some c \<and>
        length c = length m + CRYPTO_TAG_BYTES \<and> aead_decrypt sod key nonce c = Some m) \<and>
     (\<forall>key nonce c m. aead_decrypt sod key nonce c = Some m \<longrightarrow>
        length c = length m + CRYPTO_TAG_BYTES)"

text \<open>A generated pair is a 32-byte secret key with its base-point multiple.\<close>

definition keypair_correct :: "sodium \<Rightarrow> bool" where
  "keypair_correct sod \<longleftrightarrow>
     (\<forall>n. fst (kx_keypair sod n) = scalarmult_base sod (snd (kx_keypair sod n)) \<and>
        length (fst (kx_keypair sod n)) = CRYPTO_PUBLIC_KEY_BYTES \<and>
        length (snd (kx_keypair sod n)) = CRYPTO_SECRET_KEY_BYTES)"

text \<open>The key exchange: the server's receive key is the client's transmit key and vice versa,
  and either side can fail only where the other does (a degenerate public key).\<close>

definition kx_correct :: "sodium \<Rightarrow> bool" where
  "kx_correct sod \<longleftrightarrow>
     (\<forall>csk ssk.
        kx_server_session_keys sod (scalarmult_base sod ssk) ssk (scalarmult_base sod csk) =
        map_option prod.swap
          (kx_client_session_keys sod (scalarmult_base sod csk) csk (scalarmult_base sod ssk)))"

text \<open>Key pairs the library itself generated are never degenerate.\<close>

definition kx_draws_correct :: "sodium \<Rightarrow> bool" where
  "kx_draws_correct sod \<longleftrightarrow>
     (\<forall>i j. kx_client_session_keys sod (fst (kx_keypair sod i)) (snd (kx_keypair sod i))
        (fst (kx_keypair sod j)) \<noteq> None)"

definition memzero_correct :: "sodium \<Rightarrow> bool" where
  "memzero_correct sod \<longleftrightarrow> (\<forall>b. sodium_memzero sod b = replicate (length b) 0)"

definition base64_correct :: "sodium \<Rightarrow> bool" where
  "base64_correct sod \<longleftrightarrow>
     (\<forall>b n. length b \<le> n \<longrightarrow> sodium_base642bin sod (sodium_bin2base64 sod b) n = Some b)"

text \<open>The encoded text is drawn from the base64 alphabet and is not much longer than the data
  (four characters for every started group of three bytes).\<close>

definition base64_alphabet :: string where
  "base64_alphabet = ''ABCDEFGHIJKLMNOPQRSTUVWXYZabcdefghijklmnopqrstuvwxyz0123456789+/=''"

definition base64_text :: "sodium \<Rightarrow> bool" where
  "base64_text sod \<longleftrightarrow>
     (\<forall>b. length (sodium_bin2base64 sod b) \<le> 4 * length b \<and>
        list_all (\<lambda>c. c \<in> set base64_alphabet) (sodium_bin2base64 sod b))"

text \<open>What a session needs of the library.\<close>

definition sodium_ok :: "sodium \<Rightarrow> bool" where
  "sodium_ok sod \<longleftrightarrow> aead_correct sod \<and> keypair_correct sod \<and> memzero_correct sod"

section \<open>Counters and nonces\<close>

lemma write_counter_length [simp, wire_simps]: "length (write_counter c) = CRYPTO_COUNTER_BYTES"
  by (simp add: write_counter_def)

lemma upt_counter: "[0..<CRYPTO_COUNTER_BYTES] = [0, 1, 2, 3, 4, 5, 6, 7]"
  by (simp add: const_defs upt_rec)

lemma read_write_counter: "read_counter (write_counter c @ rest) = c"
proof -
  have "read_counter (write_counter c @ rest) =
      foldl (\<lambda>acc i. acc OR push_bit (8 * i) (ucast (counter_byte c i))) 0 [0..<CRYPTO_COUNTER_BYTES]"
    unfolding read_counter_def
    by (rule foldl_cong_upt) (simp add: write_counter_def nth_append const_defs)
  also have "\<dots> = c"
    by (rule bit_word_eqI) (simp add: bit_assemble counter_byte_def const_defs bit_simps)
  finally show ?thesis .
qed

interpretation counter: codec write_counter read_counter CRYPTO_COUNTER_BYTES
  using read_write_counter [of _ "[]"] by unfold_locales simp_all

lemma build_nonce_eq:
  "build_nonce c = write_counter c @ replicate (AEAD_NPUBBYTES - CRYPTO_COUNTER_BYTES) 0"
  unfolding build_nonce_def write_counter_def upt_counter
  by (simp add: const_defs numeral_eq_Suc)

lemma aead_encryptE:
  assumes "aead_correct sod"
  obtains c where "aead_encrypt sod key nonce m = Some c"
    and "length c = length m + CRYPTO_TAG_BYTES" and "aead_decrypt sod key nonce c = Some m"
  using assms unfolding aead_correct_def by blast

lemma aead_decrypt_length:
  "aead_correct sod \<Longrightarrow> aead_decrypt sod key nonce c = Some m \<Longrightarrow> length c = length m + CRYPTO_TAG_BYTES"
  unfolding aead_correct_def by blast

lemma sodium_okD:
  assumes "sodium_ok sod"
  shows "aead_correct sod" and "keypair_correct sod" and "memzero_correct sod"
  using assms by (simp_all add: sodium_ok_def)

lemma kx_keypair_facts:
  assumes "sodium_ok sod"
  shows "length (fst (kx_keypair sod n)) = CRYPTO_PUBLIC_KEY_BYTES"
    and "length (snd (kx_keypair sod n)) = CRYPTO_SECRET_KEY_BYTES"
    and "fst (kx_keypair sod n) = crypto_derive_public_key sod (snd (kx_keypair sod n))"
  using sodium_okD(2) [OF assms] unfolding keypair_correct_def crypto_derive_public_key_def by blast+

lemma crypto_wipe_zero: "sodium_ok sod \<Longrightarrow> crypto_wipe sod b = replicate (length b) 0"
  by (simp add: sodium_ok_def memzero_correct_def crypto_wipe_def)

lemma derive_agree:
  assumes "kx_correct sod"
  shows "crypto_derive_session_keys sod CRYPTO_ROLE_RESPONDER
      (crypto_derive_public_key sod sk') sk' (crypto_derive_public_key sod sk) =
    map_option (\<lambda>k. \<lparr>rx = tx k, tx = rx k\<rparr>)
      (crypto_derive_session_keys sod CRYPTO_ROLE_INITIATOR
        (crypto_derive_public_key sod sk) sk (crypto_derive_public_key sod sk'))"
  using assms
  by (auto simp: crypto_derive_session_keys_def crypto_derive_public_key_def kx_correct_def
      split: option.splits)

section \<open>Sealing and opening\<close>

lemma crypto_seal_Some:
  assumes "aead_correct sod"
  shows "crypto_seal sod key counter m out_len = Some msg \<longleftrightarrow>
    length m + CRYPTO_PACKET_OVERHEAD \<le> out_len \<and>
    (\<exists>c. aead_encrypt sod key (build_nonce counter) m = Some c \<and> msg = write_counter counter @ c)"
  by (rule aead_encryptE [OF assms, of key "build_nonce counter" m])
     (auto simp: crypto_seal_def)

lemma crypto_seal_None:
  assumes "aead_correct sod"
  shows "crypto_seal sod key counter m out_len = None \<longleftrightarrow> out_len < length m + CRYPTO_PACKET_OVERHEAD"
  by (rule aead_encryptE [OF assms, of key "build_nonce counter" m])
     (auto simp: crypto_seal_def)

lemma crypto_seal_length:
  assumes "aead_correct sod" and "crypto_seal sod key counter m out_len = Some msg"
  shows "length msg = length m + CRYPTO_PACKET_OVERHEAD" and "length msg \<le> out_len"
proof -
  obtain c where "aead_encrypt sod key (build_nonce counter) m = Some c"
    "length c = length m + CRYPTO_TAG_BYTES"
    by (rule aead_encryptE [OF assms(1)])
  with assms show "length msg = length m + CRYPTO_PACKET_OVERHEAD" "length msg \<le> out_len"
    by (auto simp: crypto_seal_Some CRYPTO_PACKET_OVERHEAD_def)
qed

lemma crypto_seal_counter:
  "crypto_seal sod key counter m out_len = Some msg \<Longrightarrow> read_counter msg = counter"
  by (auto simp: crypto_seal_def read_write_counter Let_def split: if_splits option.splits)

lemma crypto_open_seal:
  assumes "aead_correct sod" and "crypto_seal sod key counter m out_len = Some msg"
  shows "crypto_open sod key msg n = (if n < length m then None else Some (m, counter))"
proof -
  obtain c where c: "aead_encrypt sod key (build_nonce counter) m = Some c"
    "length c = length m + CRYPTO_TAG_BYTES" "aead_decrypt sod key (build_nonce counter) c = Some m"
    by (rule aead_encryptE [OF assms(1)])
  then have "msg = write_counter counter @ c"
    using assms(2) by (auto simp: crypto_seal_def Let_def split: if_splits)
  with c show ?thesis
    by (simp add: crypto_open_def Let_def read_write_counter CRYPTO_PACKET_OVERHEAD_def)
qed

lemma crypto_open_length:
  assumes "aead_correct sod" and "crypto_open sod key inp out_len = Some (m, counter)"
  shows "length inp = length m + CRYPTO_PACKET_OVERHEAD" and "length m \<le> out_len"
  using assms aead_decrypt_length [OF assms(1), of key "build_nonce (read_counter inp)" "drop CRYPTO_COUNTER_BYTES inp" m]
  by (auto simp: crypto_open_def Let_def const_defs split: if_splits option.splits)

section \<open>An instance of the laws\<close>

text \<open>
  A toy cryptosystem on which the witnesses instantiate the laws: it is not secure, it only
  shows that the laws can hold together. Public keys are the secret keys plus one, the shared
  secret is the bytewise sum of the public keys, the tag is the key xor the nonce.
\<close>

definition demo_tag :: "bytes \<Rightarrow> bytes \<Rightarrow> bytes" where
  "demo_tag key nonce =
     take CRYPTO_TAG_BYTES (map2 (XOR) (key @ replicate CRYPTO_TAG_BYTES 0) (nonce @ replicate CRYPTO_TAG_BYTES 0))"

definition demo_kx :: "bytes \<Rightarrow> bytes \<Rightarrow> bytes option" where
  "demo_kx pk rpk =
     (let shared = map2 (+) pk rpk in if list_all (\<lambda>b. b = 0) shared then None else Some shared)"

fun demo_decode :: "string \<Rightarrow> bytes option" where
  "demo_decode [] = Some []"
| "demo_decode [c] = None"
| "demo_decode (c # d # t) =
     map_option (\<lambda>b. of_nat (16 * (of_char c - 97) + (of_char d - 97)) # b) (demo_decode t)"

definition demo_encode :: "bytes \<Rightarrow> string" where
  "demo_encode b = concat (map (\<lambda>x. [char_of (97 + unat x div 16), char_of (97 + unat x mod 16)]) b)"

definition demo_sodium :: sodium where
  "demo_sodium =
     \<lparr>sodium_init_rc = 0,
      kx_keypair = (\<lambda>n. let sk = write_counter (of_nat n) @ replicate 24 0 in (map (\<lambda>b. b + 1) sk, sk)),
      scalarmult_base = map (\<lambda>b. b + 1),
      kx_client_session_keys =
        (\<lambda>pk sk rpk. map_option (\<lambda>s. (s, map NOT s)) (demo_kx (map (\<lambda>b. b + 1) sk) rpk)),
      kx_server_session_keys =
        (\<lambda>pk sk rpk. map_option (\<lambda>s. (map NOT s, s)) (demo_kx (map (\<lambda>b. b + 1) sk) rpk)),
      aead_encrypt = (\<lambda>key nonce m. Some (m @ demo_tag key nonce)),
      aead_decrypt = (\<lambda>key nonce c.
        if CRYPTO_TAG_BYTES \<le> length c \<and> drop (length c - CRYPTO_TAG_BYTES) c = demo_tag key nonce
        then Some (take (length c - CRYPTO_TAG_BYTES) c) else None),
      sodium_bin2base64 = demo_encode,
      sodium_base642bin = (\<lambda>t n. case demo_decode t of None \<Rightarrow> None
        | Some b \<Rightarrow> if length b \<le> n then Some b else None),
      sodium_memzero = (\<lambda>b. replicate (length b) 0)\<rparr>"

lemma demo_sodium_simps:
  "kx_keypair demo_sodium n =
     (map (\<lambda>b. b + 1) (write_counter (of_nat n) @ replicate 24 0), write_counter (of_nat n) @ replicate 24 0)"
  "scalarmult_base demo_sodium = map (\<lambda>b. b + 1)"
  "kx_client_session_keys demo_sodium pk sk rpk =
     map_option (\<lambda>s. (s, map NOT s)) (demo_kx (map (\<lambda>b. b + 1) sk) rpk)"
  "kx_server_session_keys demo_sodium pk sk rpk =
     map_option (\<lambda>s. (map NOT s, s)) (demo_kx (map (\<lambda>b. b + 1) sk) rpk)"
  "sodium_base642bin demo_sodium t k =
     (case demo_decode t of None \<Rightarrow> None | Some b \<Rightarrow> if length b \<le> k then Some b else None)"
  "sodium_init_rc demo_sodium = 0"
  "sodium_bin2base64 demo_sodium = demo_encode"
  by (simp_all add: demo_sodium_def Let_def)

lemma demo_tag_length [simp]: "length (demo_tag key nonce) = CRYPTO_TAG_BYTES"
  by (simp add: demo_tag_def)

lemma demo_kx_sym: "demo_kx a b = demo_kx b a"
proof -
  have "map2 (+) a b = map2 (+) b a"
    by (rule nth_equalityI) (simp_all add: add.commute)
  then show ?thesis by (simp add: demo_kx_def)
qed

lemma demo_aead_correct [simp]: "aead_correct demo_sodium"
  by (simp add: aead_correct_def demo_sodium_def)

lemma demo_keypair_correct [simp]: "keypair_correct demo_sodium"
  by (simp add: keypair_correct_def demo_sodium_def Let_def const_defs)

lemma demo_kx_correct [simp]: "kx_correct demo_sodium"
  by (simp add: kx_correct_def demo_sodium_def option.map_comp comp_def demo_kx_sym)

lemma demo_kx_draws_correct [simp]: "kx_draws_correct demo_sodium"
  by (simp add: kx_draws_correct_def demo_sodium_simps demo_kx_def list_all_iff)

lemma demo_memzero_correct [simp]: "memzero_correct demo_sodium"
  by (simp add: memzero_correct_def demo_sodium_def)

lemma demo_sodium_ok [simp]: "sodium_ok demo_sodium"
  by (simp add: sodium_ok_def)

lemma demo_nibble: "(u :: nat) < 16 \<Longrightarrow> char_of (97 + u) \<in> set base64_alphabet"
proof -
  assume "u < 16"
  then have "u \<in> set [0..<16]" by simp
  moreover have "list_all (\<lambda>u. char_of (97 + u) \<in> set base64_alphabet) [0..<16]"
    by code_simp
  ultimately show ?thesis by (simp only: list_all_iff)
qed

lemma demo_byte_bound: "unat (b :: byte) div 16 < 16"
  using unsigned_less [of b, where ?'a = nat] by (simp add: less_mult_imp_div_less)

lemma demo_decode_encode: "demo_decode (demo_encode b) = Some b"
proof (induction b)
  case (Cons x b)
  have "(of_nat (16 * (unat x div 16) + unat x mod 16) :: byte) = x" by simp
  moreover have "97 + unat x div 16 < 256" "97 + unat x mod 16 < 256"
    using demo_byte_bound [of x] by simp_all
  ultimately show ?case
    using Cons by (simp add: demo_encode_def of_char_of)
qed (simp add: demo_encode_def)

lemma demo_base64_correct [simp]: "base64_correct demo_sodium"
  by (simp add: base64_correct_def demo_sodium_simps demo_decode_encode)

lemma demo_base64_text [simp]: "base64_text demo_sodium"
proof -
  have "length (demo_encode b) = 2 * length b" for b
    by (induction b) (simp_all add: demo_encode_def)
  moreover have "list_all (\<lambda>c. c \<in> set base64_alphabet) (demo_encode b)" for b
    by (auto simp: demo_encode_def list_all_iff demo_nibble demo_byte_bound)
  ultimately show ?thesis by (simp add: base64_text_def demo_sodium_simps)
qed

section \<open>Properties\<close>

text \<open>C31. Opening what was sealed under the same key returns exactly the plaintext and the
  counter, whenever the output buffer can hold the plaintext, and fails otherwise.\<close>

theorem crypto_seal_open_roundtrip:
  assumes "aead_correct sod" and "crypto_seal sod key counter plaintext out_len = Some msg"
  shows "crypto_open sod key msg n =
    (if n < length plaintext then None else Some (plaintext, counter))"
  using assms by (rule crypto_open_seal)

theorem crypto_seal_open_roundtrip_witness:
  "\<exists>msg. crypto_seal demo_sodium [1, 2] 77 [9, 8, 7] 64 = Some msg \<and>
     crypto_open demo_sodium [1, 2] msg 3 = Some ([9, 8, 7], 77)"
proof -
  obtain msg where s: "crypto_seal demo_sodium [1, 2] 77 [9, 8, 7] 64 = Some msg"
    by (simp add: crypto_seal_def demo_sodium_def const_defs Let_def)
  from crypto_seal_open_roundtrip [OF demo_aead_correct s, of 3] s show ?thesis by simp
qed

text \<open>C34. No write leaves its buffer: a sealed packet is the plaintext plus the framing
  overhead and fits \<open>out_len\<close>; sealing fails exactly when it would not fit; an opened
  plaintext is the packet less the overhead and fits \<open>out_len\<close>.\<close>

theorem crypto_buffers_in_bounds:
  assumes "aead_correct sod"
  shows "(case crypto_seal sod key counter plaintext out_len of
            None \<Rightarrow> out_len < length plaintext + CRYPTO_PACKET_OVERHEAD
          | Some msg \<Rightarrow> length msg = length plaintext + CRYPTO_PACKET_OVERHEAD \<and> length msg \<le> out_len) \<and>
    (case crypto_open sod key packet n of
       None \<Rightarrow> True
     | Some (m, c) \<Rightarrow> length packet = length m + CRYPTO_PACKET_OVERHEAD \<and> length m \<le> n)"
  using crypto_seal_None [OF assms] crypto_seal_length [OF assms] crypto_open_length [OF assms]
  by (auto split: option.splits)

theorem crypto_buffers_in_bounds_witness:
  "crypto_seal demo_sodium [1] 5 [1, 2, 3] 26 = None \<and>
   (case crypto_seal demo_sodium [1] 5 [1, 2, 3] 27 of None \<Rightarrow> False | Some msg \<Rightarrow> length msg = 27)"
proof -
  have "crypto_seal demo_sodium [1] 5 [1, 2, 3] 27 \<noteq> None"
    by (simp add: crypto_seal_None const_defs)
  then show ?thesis
    using crypto_buffers_in_bounds [OF demo_aead_correct, where key = "[1]" and counter = 5 and plaintext = "[1, 2, 3]" and out_len = 27 and packet = "[]" and n = 0]
      crypto_buffers_in_bounds [OF demo_aead_correct, where key = "[1]" and counter = 5 and plaintext = "[1, 2, 3]" and out_len = 26 and packet = "[]" and n = 0]
    by (auto simp: const_defs split: option.splits)
qed

text \<open>The nonce construction is injective and of the size the cipher wants: two packets
  share a nonce only if they share the 64-bit counter, so a tampered counter is a different
  nonce.\<close>

theorem build_nonce_injective:
  "(build_nonce c = build_nonce d \<longleftrightarrow> c = d) \<and> length (build_nonce c) = AEAD_NPUBBYTES"
  by (simp add: build_nonce_eq counter.enc_eq_iff const_defs)

text \<open>Role agreement: when one side derives keys as initiator and the other as responder
  from each other's public keys, either both derivations fail or each side's transmit key is
  the other's receive key.\<close>

theorem derive_session_keys_agree:
  assumes "kx_correct sod"
    and "pk = crypto_derive_public_key sod sk" and "pk' = crypto_derive_public_key sod sk'"
  shows "crypto_derive_session_keys sod CRYPTO_ROLE_RESPONDER pk' sk' pk =
    map_option (\<lambda>k. \<lparr>rx = tx k, tx = rx k\<rparr>)
      (crypto_derive_session_keys sod CRYPTO_ROLE_INITIATOR pk sk pk')"
  using derive_agree [OF assms(1), of sk' sk] assms(2,3) by simp

theorem derive_session_keys_agree_witness:
  "crypto_derive_session_keys demo_sodium CRYPTO_ROLE_RESPONDER [3, 3] [2, 2] [2, 2] =
    map_option (\<lambda>k. \<lparr>rx = tx k, tx = rx k\<rparr>)
      (crypto_derive_session_keys demo_sodium CRYPTO_ROLE_INITIATOR [2, 2] [1, 1] [3, 3])"
  by (rule derive_session_keys_agree [OF demo_kx_correct])
     (simp_all add: crypto_derive_public_key_def demo_sodium_def)

end
