(* ===== verification/Session.thy ===== *)
theory Session
  imports Prelude Replay Crypto
begin

text \<open>
  The handshake and data-channel state machine of one peer relationship
  (src/src/session.c, src/include/session.h). \<open>session\<close> is \<open>session_t\<close>; it extends the
  replay state of theory Replay. An operation takes the session and returns the new one.
  The operations that may draw an ephemeral key pair also thread \<open>rng\<close>, the number of key
  pairs drawn so far, so that the draw a key comes from is visible in the state. A return of
  \<open>-1\<close> is \<open>None\<close>; a message written to a caller's buffer is returned as the list of its
  bytes. \<open>time(NULL)\<close> is the argument \<open>now\<close> of \<open>session_init\<close>.
\<close>

section \<open>Data\<close>

datatype session_state = SESSION_STATE_HANDSHAKE_PENDING | SESSION_STATE_ESTABLISHED

definition SESSION_MSG_HANDSHAKE_INIT :: byte where [const_defs]: "SESSION_MSG_HANDSHAKE_INIT = 1"
definition SESSION_MSG_HANDSHAKE_RESPONSE :: byte where [const_defs]: "SESSION_MSG_HANDSHAKE_RESPONSE = 2"
definition SESSION_MSG_DATA :: byte where [const_defs]: "SESSION_MSG_DATA = 3"

definition SESSION_HANDSHAKE_MSG_LEN :: nat where
  [const_defs]: "SESSION_HANDSHAKE_MSG_LEN = 1 + CRYPTO_PACKET_OVERHEAD + CRYPTO_PUBLIC_KEY_BYTES"

definition SESSION_DATA_OVERHEAD :: nat where
  [const_defs]: "SESSION_DATA_OVERHEAD = 1 + CRYPTO_PACKET_OVERHEAD"

record session = replay_state +
  role :: crypto_role
  state :: session_state
  static_keys :: crypto_session_keys
  local_eph_pk :: bytes
  local_eph_sk :: bytes
  handshake_counter :: u64
  pending_handshake_counter :: u64
  have_seen_handshake :: bool
  highest_handshake_counter_seen :: u64
  data_keys :: crypto_session_keys
  tx_counter :: u64

text \<open>The session after \<open>memset(s, 0, sizeof(*s))\<close>.\<close>

definition zero_keys :: crypto_session_keys where
  "zero_keys = \<lparr>rx = replicate CRYPTO_SESSION_KEY_BYTES 0, tx = replicate CRYPTO_SESSION_KEY_BYTES 0\<rparr>"

definition session_zero :: session where
  "session_zero =
     \<lparr>highest_rx_counter = 0, have_received_any = False,
      replay_window = replicate SESSION_REPLAY_WINDOW_BYTES 0,
      role = CRYPTO_ROLE_INITIATOR, state = SESSION_STATE_HANDSHAKE_PENDING,
      static_keys = zero_keys,
      local_eph_pk = replicate CRYPTO_PUBLIC_KEY_BYTES 0,
      local_eph_sk = replicate CRYPTO_SECRET_KEY_BYTES 0,
      handshake_counter = 0, pending_handshake_counter = 0,
      have_seen_handshake = False, highest_handshake_counter_seen = 0,
      data_keys = zero_keys, tx_counter = 0\<rparr>"

section \<open>Operations\<close>

definition session_start_handshake :: "sodium \<Rightarrow> nat \<Rightarrow> session \<Rightarrow> nat \<times> session" where
  "session_start_handshake sod rng s =
     (case crypto_generate_keypair sod rng of ((pk, sk), rng') \<Rightarrow>
        (rng', s\<lparr>local_eph_pk := pk, local_eph_sk := sk,
                 state := SESSION_STATE_HANDSHAKE_PENDING,
                 tx_counter := 0, have_received_any := False,
                 replay_window := replicate SESSION_REPLAY_WINDOW_BYTES 0\<rparr>))"

definition session_init ::
  "sodium \<Rightarrow> nat \<Rightarrow> u64 \<Rightarrow> crypto_role \<Rightarrow> bytes \<Rightarrow> bytes \<Rightarrow> bytes \<Rightarrow> (nat \<times> session) option" where
  "session_init sod rng now r local_pk local_sk peer_pk =
     (let s = session_zero\<lparr>role := r\<rparr>
      in case crypto_derive_session_keys sod r local_pk local_sk peer_pk of
           None \<Rightarrow> None
         | Some keys \<Rightarrow>
             Some (session_start_handshake sod rng
                     (s\<lparr>static_keys := keys, handshake_counter := now\<rparr>)))"

definition session_build_init :: "sodium \<Rightarrow> session \<Rightarrow> nat \<Rightarrow> session \<times> bytes option" where
  "session_build_init sod s out_len =
     (if role s \<noteq> CRYPTO_ROLE_INITIATOR \<or> state s \<noteq> SESSION_STATE_HANDSHAKE_PENDING then (s, None)
      else if out_len < SESSION_HANDSHAKE_MSG_LEN then (s, None)
      else case crypto_seal sod (tx (static_keys s)) (handshake_counter s) (local_eph_pk s) (out_len - 1) of
             None \<Rightarrow> (s, None)
           | Some sealed \<Rightarrow>
               (s\<lparr>pending_handshake_counter := handshake_counter s,
                  handshake_counter := handshake_counter s + 1\<rparr>,
                Some (SESSION_MSG_HANDSHAKE_INIT # sealed)))"

text \<open>The message-type byte and the sealed rest of a datagram (\<open>in_len < 1\<close> is \<open>None\<close>).\<close>

definition msg_body :: "byte \<Rightarrow> bytes \<Rightarrow> bytes option" where
  "msg_body ty inp = (case inp of [] \<Rightarrow> None | b # body \<Rightarrow> if b \<noteq> ty then None else Some body)"

text \<open>Opening a handshake body with the static keys: the peer's ephemeral key, exactly
  32 bytes, and the handshake counter.\<close>

definition open_handshake :: "sodium \<Rightarrow> session \<Rightarrow> bytes \<Rightarrow> (bytes \<times> u64) option" where
  "open_handshake sod s body =
     (case crypto_open sod (rx (static_keys s)) body CRYPTO_PUBLIC_KEY_BYTES of
        None \<Rightarrow> None
      | Some (peer_eph_pk, counter) \<Rightarrow>
          if length peer_eph_pk \<noteq> CRYPTO_PUBLIC_KEY_BYTES then None else Some (peer_eph_pk, counter))"

definition session_handle_init ::
  "sodium \<Rightarrow> nat \<Rightarrow> session \<Rightarrow> bytes \<Rightarrow> nat \<Rightarrow> nat \<times> session \<times> bytes option" where
  "session_handle_init sod rng s inp out_len =
     (if role s \<noteq> CRYPTO_ROLE_RESPONDER then (rng, s, None)
      else case msg_body SESSION_MSG_HANDSHAKE_INIT inp of
        None \<Rightarrow> (rng, s, None)
      | Some body \<Rightarrow>
          if out_len < SESSION_HANDSHAKE_MSG_LEN then (rng, s, None)
          else case open_handshake sod s body of
            None \<Rightarrow> (rng, s, None)
          | Some (peer_eph_pk, counter) \<Rightarrow>
              if have_seen_handshake s \<and> counter \<le> highest_handshake_counter_seen s then (rng, s, None)
              else
                (let (rng1, s1) = (if state s = SESSION_STATE_ESTABLISHED
                                   then session_start_handshake sod rng s else (rng, s))
                 in case crypto_derive_session_keys sod (role s1) (local_eph_pk s1) (local_eph_sk s1) peer_eph_pk of
                      None \<Rightarrow> (rng1, s1, None)
                    | Some keys \<Rightarrow>
                        (let s2 = s1\<lparr>data_keys := keys, local_eph_sk := crypto_wipe sod (local_eph_sk s1)\<rparr>
                         in case crypto_seal sod (tx (static_keys s2)) counter (local_eph_pk s2) (out_len - 1) of
                              None \<Rightarrow> (rng1, s2, None)
                            | Some sealed \<Rightarrow>
                                (rng1, s2\<lparr>have_seen_handshake := True,
                                          highest_handshake_counter_seen := counter,
                                          state := SESSION_STATE_ESTABLISHED\<rparr>,
                                 Some (SESSION_MSG_HANDSHAKE_RESPONSE # sealed)))))"

definition session_handle_response :: "sodium \<Rightarrow> session \<Rightarrow> bytes \<Rightarrow> session \<times> bool" where
  "session_handle_response sod s inp =
     (if role s \<noteq> CRYPTO_ROLE_INITIATOR \<or> state s \<noteq> SESSION_STATE_HANDSHAKE_PENDING then (s, False)
      else case msg_body SESSION_MSG_HANDSHAKE_RESPONSE inp of
        None \<Rightarrow> (s, False)
      | Some body \<Rightarrow>
          (case open_handshake sod s body of
             None \<Rightarrow> (s, False)
           | Some (peer_eph_pk, counter) \<Rightarrow>
               if counter \<noteq> pending_handshake_counter s then (s, False)
               else case crypto_derive_session_keys sod (role s) (local_eph_pk s) (local_eph_sk s) peer_eph_pk of
                      None \<Rightarrow> (s, False)
                    | Some keys \<Rightarrow>
                        (s\<lparr>data_keys := keys, local_eph_sk := crypto_wipe sod (local_eph_sk s),
                           state := SESSION_STATE_ESTABLISHED\<rparr>, True)))"

definition session_seal_data :: "sodium \<Rightarrow> session \<Rightarrow> bytes \<Rightarrow> nat \<Rightarrow> session \<times> bytes option" where
  "session_seal_data sod s plaintext out_len =
     (if state s \<noteq> SESSION_STATE_ESTABLISHED then (s, None)
      else if out_len < length plaintext + SESSION_DATA_OVERHEAD then (s, None)
      else case crypto_seal sod (tx (data_keys s)) (tx_counter s) plaintext (out_len - 1) of
             None \<Rightarrow> (s, None)
           | Some sealed \<Rightarrow> (s\<lparr>tx_counter := tx_counter s + 1\<rparr>, Some (SESSION_MSG_DATA # sealed)))"

text \<open>
  The outcomes of \<open>session_open_data\<close>. Both \<open>OpenFailed\<close> and \<open>OpenReplayed\<close> return -1;
  the latter carries the plaintext \<open>crypto_open\<close> has already written to \<open>out\<close> when the
  replay check refuses the packet.
\<close>

datatype open_result = OpenFailed | OpenReplayed bytes | Opened bytes

definition session_open_data :: "sodium \<Rightarrow> session \<Rightarrow> bytes \<Rightarrow> nat \<Rightarrow> session \<times> open_result" where
  "session_open_data sod s inp out_len =
     (if state s \<noteq> SESSION_STATE_ESTABLISHED then (s, OpenFailed)
      else case msg_body SESSION_MSG_DATA inp of
        None \<Rightarrow> (s, OpenFailed)
      | Some body \<Rightarrow>
          (case crypto_open sod (rx (data_keys s)) body out_len of
             None \<Rightarrow> (s, OpenFailed)
           | Some (out, counter) \<Rightarrow>
               (case replay_check_and_mark s counter of (s', ok) \<Rightarrow>
                  if \<not> ok then (s', OpenReplayed out) else (s', Opened out))))"

section \<open>Runs\<close>

text \<open>Any sequence of calls of the interface on one session, with the messages an adversarial
  network may deliver.\<close>

datatype session_event =
    StartHandshake
  | BuildInit nat
  | HandleInit bytes nat
  | HandleResponse bytes
  | SealData bytes nat
  | OpenData bytes nat

fun session_step :: "sodium \<Rightarrow> nat \<times> session \<Rightarrow> session_event \<Rightarrow> nat \<times> session" where
  "session_step sod (rng, s) StartHandshake = session_start_handshake sod rng s"
| "session_step sod (rng, s) (BuildInit n) = (rng, fst (session_build_init sod s n))"
| "session_step sod (rng, s) (HandleInit m n) =
     (case session_handle_init sod rng s m n of (rng', s', _) \<Rightarrow> (rng', s'))"
| "session_step sod (rng, s) (HandleResponse m) = (rng, fst (session_handle_response sod s m))"
| "session_step sod (rng, s) (SealData p n) = (rng, fst (session_seal_data sod s p n))"
| "session_step sod (rng, s) (OpenData m n) = (rng, fst (session_open_data sod s m n))"

abbreviation session_run :: "sodium \<Rightarrow> nat \<times> session \<Rightarrow> session_event list \<Rightarrow> nat \<times> session" where
  "session_run sod \<equiv> run (session_step sod)"

text \<open>The nonces a run uses under the data key: for every packet sealed, the number of the
  ephemeral draw its keys come from and the counter.\<close>

fun data_nonces :: "sodium \<Rightarrow> nat \<times> session \<Rightarrow> session_event list \<Rightarrow> (nat \<times> u64) list" where
  "data_nonces sod st [] = []"
| "data_nonces sod st (e # es) =
     (case e of
        SealData p n \<Rightarrow>
          (case session_seal_data sod (snd st) p n of
             (_, None) \<Rightarrow> []
           | (_, Some _) \<Rightarrow> [(fst st, tx_counter (snd st))])
      | _ \<Rightarrow> []) @ data_nonces sod (session_step sod st e) es"

text \<open>The nonces a run uses under the static transmit key: the counters of the handshake
  messages it sends.\<close>

fun handshake_nonces :: "sodium \<Rightarrow> nat \<times> session \<Rightarrow> session_event list \<Rightarrow> u64 list" where
  "handshake_nonces sod st [] = []"
| "handshake_nonces sod st (e # es) =
     (case e of
        BuildInit n \<Rightarrow>
          (case session_build_init sod (snd st) n of
             (_, None) \<Rightarrow> []
           | (_, Some m) \<Rightarrow> [read_counter (tl m)])
      | HandleInit m n \<Rightarrow>
          (case session_handle_init sod (fst st) (snd st) m n of
             (_, _, None) \<Rightarrow> []
           | (_, _, Some r) \<Rightarrow> [read_counter (tl r)])
      | _ \<Rightarrow> []) @ handshake_nonces sod (session_step sod st e) es"

section \<open>Invariant\<close>

definition wiped :: bytes where
  "wiped = replicate CRYPTO_SECRET_KEY_BYTES 0"

text \<open>
  What holds of a session between calls: the ephemeral key pair of a pending handshake is a
  draw already made and its channel state is reset; an established session has wiped its
  ephemeral secret, and its data keys come from an earlier draw.
\<close>

fun session_inv :: "sodium \<Rightarrow> nat \<times> session \<Rightarrow> bool" where
  "session_inv sod (rng, s) \<longleftrightarrow>
     (\<exists>S. replay_inv s S) \<and>
     (\<exists>i < rng. local_eph_pk s = fst (kx_keypair sod i) \<and>
        (state s = SESSION_STATE_HANDSHAKE_PENDING \<longrightarrow>
           local_eph_sk s = snd (kx_keypair sod i) \<and>
           tx_counter s = 0 \<and> replay_inv s {}) \<and>
        (state s = SESSION_STATE_ESTABLISHED \<longrightarrow>
           local_eph_sk s = wiped \<and>
           (\<exists>peer_pk. crypto_derive_session_keys sod (role s)
              (fst (kx_keypair sod i)) (snd (kx_keypair sod i)) peer_pk = Some (data_keys s))))"

section \<open>Single operations\<close>

lemma msg_body_Some [simp]: "msg_body ty inp = Some body \<longleftrightarrow> inp = ty # body"
  by (cases inp) (auto simp: msg_body_def)

lemma msg_body_simps [simp]:
  "msg_body ty [] = None" "msg_body ty (b # body) = (if b = ty then Some body else None)"
  by (simp_all add: msg_body_def)

lemma start_handshake_simps [frame_simps]:
  "fst (session_start_handshake sod rng s) = Suc rng"
  "role (snd (session_start_handshake sod rng s)) = role s"
  "static_keys (snd (session_start_handshake sod rng s)) = static_keys s"
  "state (snd (session_start_handshake sod rng s)) = SESSION_STATE_HANDSHAKE_PENDING"
  "local_eph_pk (snd (session_start_handshake sod rng s)) = fst (kx_keypair sod rng)"
  "local_eph_sk (snd (session_start_handshake sod rng s)) = snd (kx_keypair sod rng)"
  "tx_counter (snd (session_start_handshake sod rng s)) = 0"
  "handshake_counter (snd (session_start_handshake sod rng s)) = handshake_counter s"
  "pending_handshake_counter (snd (session_start_handshake sod rng s)) = pending_handshake_counter s"
  "have_seen_handshake (snd (session_start_handshake sod rng s)) = have_seen_handshake s"
  "highest_handshake_counter_seen (snd (session_start_handshake sod rng s)) = highest_handshake_counter_seen s"
  "replay_inv (snd (session_start_handshake sod rng s)) {}"
  by (simp_all add: session_start_handshake_def crypto_generate_keypair_def replay_inv_def split: prod.splits)

text \<open>The three outcomes of \<open>session_handle_init\<close>: a rejection that changes nothing, an
  authenticated but degenerate peer key, and an established session.\<close>

lemma session_handle_init_cases:
  assumes ok: "sodium_ok sod" and pk: "length (local_eph_pk s) = CRYPTO_PUBLIC_KEY_BYTES"
    and eq: "session_handle_init sod rng s inp out_len = (rng', s', r)"
  obtains (rejected) "rng' = rng" "s' = s" "r = None"
  | (degenerate) body peer_pk counter s1 where
      "role s = CRYPTO_ROLE_RESPONDER" "inp = SESSION_MSG_HANDSHAKE_INIT # body"
      "open_handshake sod s body = Some (peer_pk, counter)"
      "\<not> (have_seen_handshake s \<and> counter \<le> highest_handshake_counter_seen s)"
      "(rng', s1) = (if state s = SESSION_STATE_ESTABLISHED then session_start_handshake sod rng s else (rng, s))"
      "crypto_derive_session_keys sod (role s1) (local_eph_pk s1) (local_eph_sk s1) peer_pk = None"
      "s' = s1" "r = None"
  | (established) body peer_pk counter s1 keys sealed where
      "role s = CRYPTO_ROLE_RESPONDER" "inp = SESSION_MSG_HANDSHAKE_INIT # body"
      "open_handshake sod s body = Some (peer_pk, counter)"
      "\<not> (have_seen_handshake s \<and> counter \<le> highest_handshake_counter_seen s)"
      "SESSION_HANDSHAKE_MSG_LEN \<le> out_len"
      "(rng', s1) = (if state s = SESSION_STATE_ESTABLISHED then session_start_handshake sod rng s else (rng, s))"
      "crypto_derive_session_keys sod (role s1) (local_eph_pk s1) (local_eph_sk s1) peer_pk = Some keys"
      "crypto_seal sod (tx (static_keys s)) counter (local_eph_pk s1) (out_len - 1) = Some sealed"
      "s' = s1\<lparr>data_keys := keys, local_eph_sk := crypto_wipe sod (local_eph_sk s1),
               have_seen_handshake := True, highest_handshake_counter_seen := counter,
               state := SESSION_STATE_ESTABLISHED\<rparr>"
      "r = Some (SESSION_MSG_HANDSHAKE_RESPONSE # sealed)"
proof -
  define g where "g = (if state s = SESSION_STATE_ESTABLISHED then session_start_handshake sod rng s else (rng, s))"
  obtain rng1 s1 where g: "g = (rng1, s1)" by fastforce
  have len: "length (local_eph_pk s1) = CRYPTO_PUBLIC_KEY_BYTES"
    using g pk kx_keypair_facts(1) [OF ok, of rng] start_handshake_simps(5) [of sod rng s]
    by (auto simp: g_def split: if_splits)
  have st: "static_keys s1 = static_keys s"
    using g start_handshake_simps(3) [of sod rng s] by (auto simp: g_def split: if_splits)
  have sealed: "crypto_seal sod k c (local_eph_pk s1) (out_len - 1) \<noteq> None"
    if "SESSION_HANDSHAKE_MSG_LEN \<le> out_len" for k c
    using that len crypto_seal_None [OF sodium_okD(1) [OF ok]] by (simp add: const_defs)
  show thesis
  proof (cases "\<exists>body peer_pk counter. role s = CRYPTO_ROLE_RESPONDER \<and>
      inp = SESSION_MSG_HANDSHAKE_INIT # body \<and> SESSION_HANDSHAKE_MSG_LEN \<le> out_len \<and>
      open_handshake sod s body = Some (peer_pk, counter) \<and>
      \<not> (have_seen_handshake s \<and> counter \<le> highest_handshake_counter_seen s)")
    case False
    then have "session_handle_init sod rng s inp out_len = (rng, s, None)"
      by (auto simp: session_handle_init_def split: option.splits)
    with eq rejected show ?thesis by simp
  next
    case True
    then obtain body peer_pk counter where acc: "role s = CRYPTO_ROLE_RESPONDER"
      "inp = SESSION_MSG_HANDSHAKE_INIT # body" "SESSION_HANDSHAKE_MSG_LEN \<le> out_len"
      "open_handshake sod s body = Some (peer_pk, counter)"
      "\<not> (have_seen_handshake s \<and> counter \<le> highest_handshake_counter_seen s)"
      by blast
    from acc(2) have body: "msg_body SESSION_MSG_HANDSHAKE_INIT inp = Some body" by simp
    note handler = eq [unfolded session_handle_init_def g_def [symmetric] g body acc(4)]
    show ?thesis
    proof (cases "crypto_derive_session_keys sod (role s1) (local_eph_pk s1) (local_eph_sk s1) peer_pk")
      case None
      with handler acc have "rng' = rng1" "s' = s1" "r = None" by auto
      with None acc g degenerate [of body peer_pk counter s1] show ?thesis by (simp add: g_def)
    next
      case (Some keys)
      obtain sealed where seal: "crypto_seal sod (tx (static_keys s)) counter (local_eph_pk s1) (out_len - 1) = Some sealed"
        using sealed [OF acc(3)] by blast
      with Some handler acc st have "rng' = rng1" "r = Some (SESSION_MSG_HANDSHAKE_RESPONSE # sealed)"
        "s' = s1\<lparr>data_keys := keys, local_eph_sk := crypto_wipe sod (local_eph_sk s1),
           have_seen_handshake := True, highest_handshake_counter_seen := counter,
           state := SESSION_STATE_ESTABLISHED\<rparr>"
        by auto
      with Some seal acc g established [of body peer_pk counter s1 keys sealed] show ?thesis
        by (simp add: g_def)
    qed
  qed
qed

lemma session_handle_response_cases:
  assumes "session_handle_response sod s inp = (s', ok)"
  obtains (rejected) "s' = s" "\<not> ok"
  | (established) body peer_pk keys where
      "role s = CRYPTO_ROLE_INITIATOR" "state s = SESSION_STATE_HANDSHAKE_PENDING"
      "inp = SESSION_MSG_HANDSHAKE_RESPONSE # body"
      "open_handshake sod s body = Some (peer_pk, pending_handshake_counter s)"
      "crypto_derive_session_keys sod (role s) (local_eph_pk s) (local_eph_sk s) peer_pk = Some keys"
      "s' = s\<lparr>data_keys := keys, local_eph_sk := crypto_wipe sod (local_eph_sk s),
              state := SESSION_STATE_ESTABLISHED\<rparr>" "ok"
proof (cases "\<exists>body peer_pk keys. role s = CRYPTO_ROLE_INITIATOR \<and>
    state s = SESSION_STATE_HANDSHAKE_PENDING \<and> inp = SESSION_MSG_HANDSHAKE_RESPONSE # body \<and>
    open_handshake sod s body = Some (peer_pk, pending_handshake_counter s) \<and>
    crypto_derive_session_keys sod (role s) (local_eph_pk s) (local_eph_sk s) peer_pk = Some keys")
  case True
  then obtain body peer_pk keys where acc: "role s = CRYPTO_ROLE_INITIATOR"
    "state s = SESSION_STATE_HANDSHAKE_PENDING" "inp = SESSION_MSG_HANDSHAKE_RESPONSE # body"
    "open_handshake sod s body = Some (peer_pk, pending_handshake_counter s)"
    "crypto_derive_session_keys sod (role s) (local_eph_pk s) (local_eph_sk s) peer_pk = Some keys"
    by blast
  from acc have "session_handle_response sod s inp =
      (s\<lparr>data_keys := keys, local_eph_sk := crypto_wipe sod (local_eph_sk s),
         state := SESSION_STATE_ESTABLISHED\<rparr>, True)"
    by (simp add: session_handle_response_def)
  with assms acc show thesis by (intro established [of body peer_pk keys]) simp_all
next
  case False
  then have "session_handle_response sod s inp = (s, False)"
    by (auto simp: session_handle_response_def split: option.splits)
  with assms rejected show thesis by simp
qed

lemma session_build_init_cases:
  assumes "session_build_init sod s out_len = (s', r)"
  obtains (rejected) "s' = s" "r = None"
  | (sent) sealed where
      "role s = CRYPTO_ROLE_INITIATOR" "state s = SESSION_STATE_HANDSHAKE_PENDING"
      "crypto_seal sod (tx (static_keys s)) (handshake_counter s) (local_eph_pk s) (out_len - 1) = Some sealed"
      "s' = s\<lparr>pending_handshake_counter := handshake_counter s,
              handshake_counter := handshake_counter s + 1\<rparr>"
      "r = Some (SESSION_MSG_HANDSHAKE_INIT # sealed)"
proof (cases "role s = CRYPTO_ROLE_INITIATOR \<and> state s = SESSION_STATE_HANDSHAKE_PENDING \<and>
    SESSION_HANDSHAKE_MSG_LEN \<le> out_len")
  case True
  show thesis
  proof (cases "crypto_seal sod (tx (static_keys s)) (handshake_counter s) (local_eph_pk s) (out_len - 1)")
    case None
    with True have "session_build_init sod s out_len = (s, None)"
      by (simp add: session_build_init_def)
    with assms show thesis by (intro rejected) simp_all
  next
    case (Some sealed)
    with True assms show thesis
      by (intro sent [of sealed]) (simp_all add: session_build_init_def)
  qed
next
  case False
  then have "session_build_init sod s out_len = (s, None)"
    by (auto simp: session_build_init_def)
  with assms rejected show thesis by simp
qed

lemma session_seal_data_cases:
  assumes "session_seal_data sod s p out_len = (s', r)"
  obtains (rejected) "s' = s" "r = None"
  | (sent) sealed where "state s = SESSION_STATE_ESTABLISHED"
      "length p + SESSION_DATA_OVERHEAD \<le> out_len"
      "crypto_seal sod (tx (data_keys s)) (tx_counter s) p (out_len - 1) = Some sealed"
      "s' = s\<lparr>tx_counter := tx_counter s + 1\<rparr>" "r = Some (SESSION_MSG_DATA # sealed)"
proof (cases "state s = SESSION_STATE_ESTABLISHED \<and> length p + SESSION_DATA_OVERHEAD \<le> out_len")
  case True
  show thesis
  proof (cases "crypto_seal sod (tx (data_keys s)) (tx_counter s) p (out_len - 1)")
    case None
    with True have "session_seal_data sod s p out_len = (s, None)"
      by (simp add: session_seal_data_def)
    with assms show thesis by (intro rejected) simp_all
  next
    case (Some sealed)
    with True assms show thesis
      by (intro sent [of sealed]) (simp_all add: session_seal_data_def)
  qed
next
  case False
  then have "session_seal_data sod s p out_len = (s, None)"
    by (auto simp: session_seal_data_def)
  with assms rejected show thesis by simp
qed

lemma session_open_data_cases:
  assumes "session_open_data sod s inp out_len = (s', r)"
  obtains (failed) "s' = s" "r = OpenFailed"
  | (opened) body out counter ok where "state s = SESSION_STATE_ESTABLISHED"
      "inp = SESSION_MSG_DATA # body"
      "crypto_open sod (rx (data_keys s)) body out_len = Some (out, counter)"
      "replay_check_and_mark s counter = (s', ok)"
      "r = (if ok then Opened out else OpenReplayed out)"
  using assms unfolding session_open_data_def
  by (auto split: if_splits option.splits prod.splits)

text \<open>The replay check leaves every session field alone.\<close>

lemma replay_check_session [frame_simps]:
  fixes s :: session
  shows "role (fst (replay_check_and_mark s c)) = role s"
    "state (fst (replay_check_and_mark s c)) = state s"
    "static_keys (fst (replay_check_and_mark s c)) = static_keys s"
    "local_eph_pk (fst (replay_check_and_mark s c)) = local_eph_pk s"
    "local_eph_sk (fst (replay_check_and_mark s c)) = local_eph_sk s"
    "handshake_counter (fst (replay_check_and_mark s c)) = handshake_counter s"
    "pending_handshake_counter (fst (replay_check_and_mark s c)) = pending_handshake_counter s"
    "have_seen_handshake (fst (replay_check_and_mark s c)) = have_seen_handshake s"
    "highest_handshake_counter_seen (fst (replay_check_and_mark s c)) = highest_handshake_counter_seen s"
    "data_keys (fst (replay_check_and_mark s c)) = data_keys s"
    "tx_counter (fst (replay_check_and_mark s c)) = tx_counter s"
  by (simp_all add: replay_check_and_mark_def Let_def)

text \<open>Fields the replay invariant does not look at.\<close>

lemma replay_inv_session_update [simp]:
  fixes s :: session
  shows "replay_inv (s\<lparr>tx_counter := t\<rparr>) S = replay_inv s S"
    "replay_inv (s\<lparr>data_keys := k, local_eph_sk := e, state := st\<rparr>) S = replay_inv s S"
    "replay_inv (s\<lparr>data_keys := k, local_eph_sk := e, have_seen_handshake := b,
        highest_handshake_counter_seen := h, state := st\<rparr>) S = replay_inv s S"
    "replay_inv (s\<lparr>pending_handshake_counter := p, handshake_counter := h\<rparr>) S = replay_inv s S"
  by (simp_all add: replay_inv_def)

section \<open>The invariant is kept\<close>

lemma session_invD:
  assumes "sodium_ok sod" and "session_inv sod (rng, s)"
  shows "length (local_eph_pk s) = CRYPTO_PUBLIC_KEY_BYTES" and "\<exists>S. replay_inv s S"
  using assms kx_keypair_facts(1) [OF assms(1)] by auto

lemma start_handshake_inv: "session_inv sod (session_start_handshake sod rng s)"
  using start_handshake_simps [of sod rng s]
  by (cases "session_start_handshake sod rng s") auto

text \<open>The (possibly restarted) session \<open>session_handle_init\<close> goes on with.\<close>

lemma restart_inv:
  assumes "session_inv sod (rng, s)"
    and "(if state s = SESSION_STATE_ESTABLISHED then session_start_handshake sod rng s else (rng, s)) = (rng1, s1)"
  shows "session_inv sod (rng1, s1) \<and> state s1 = SESSION_STATE_HANDSHAKE_PENDING"
proof (cases "state s")
  case SESSION_STATE_HANDSHAKE_PENDING
  with assms show ?thesis by simp
next
  case SESSION_STATE_ESTABLISHED
  with assms(2) start_handshake_inv [of sod rng s] start_handshake_simps(4) [of sod rng s]
  show ?thesis by (simp del: session_inv.simps)
qed

lemma handle_init_inv:
  assumes ok: "sodium_ok sod" and inv: "session_inv sod (rng, s)"
    and eq: "session_handle_init sod rng s inp n = (rng', s', r)"
  shows "session_inv sod (rng', s')"
  using ok session_invD(1) [OF ok inv] eq
proof (cases rule: session_handle_init_cases)
  case rejected
  with inv show ?thesis by simp
next
  case (degenerate body peer_pk counter s1)
  then have "(rng', s') = (if state s = SESSION_STATE_ESTABLISHED then session_start_handshake sod rng s else (rng, s))"
    by simp
  then show ?thesis
    using inv start_handshake_inv [of sod rng s] by (simp del: session_inv.simps split: if_splits)
next
  case (established body peer_pk counter s1 keys sealed)
  have "session_inv sod (rng', s1)" "state s1 = SESSION_STATE_HANDSHAKE_PENDING"
    using restart_inv [OF inv established(6) [symmetric]] by blast+
  then obtain i where i: "i < rng'" "local_eph_pk s1 = fst (kx_keypair sod i)"
    "local_eph_sk s1 = snd (kx_keypair sod i)" "replay_inv s1 {}"
    by auto
  then have "crypto_wipe sod (local_eph_sk s1) = wiped"
    using kx_keypair_facts(2) [OF ok] by (simp add: crypto_wipe_zero [OF ok] wiped_def)
  with i established(7,9) show ?thesis
    by auto
qed

lemma handle_response_inv:
  assumes ok: "sodium_ok sod" and inv: "session_inv sod (rng, s)"
    and eq: "session_handle_response sod s inp = (s', b)"
  shows "session_inv sod (rng, s')"
  using eq
proof (cases rule: session_handle_response_cases)
  case (established body peer_pk keys)
  then obtain i where i: "i < rng" "local_eph_pk s = fst (kx_keypair sod i)"
    "local_eph_sk s = snd (kx_keypair sod i)" "replay_inv s {}"
    using inv by auto
  then have "crypto_wipe sod (local_eph_sk s) = wiped"
    using kx_keypair_facts(2) [OF ok] by (simp add: crypto_wipe_zero [OF ok] wiped_def)
  with i established(5,6) show ?thesis by auto
qed (use inv in simp)

lemma open_data_inv:
  assumes inv: "session_inv sod (rng, s)" and eq: "session_open_data sod s m n = (s', r)"
  shows "session_inv sod (rng, s')"
  using eq
proof (cases rule: session_open_data_cases)
  case (opened body out counter b)
  obtain S where "replay_inv s S" using inv by auto
  then have "\<exists>S'. replay_inv s' S'"
    using replay.check_inv opened(4) by blast
  moreover have "s' = fst (replay_check_and_mark s counter)"
    using opened(4) by simp
  ultimately show ?thesis
    using inv opened(1) replay_check_session [of s counter] by auto
qed (use inv in simp)

lemma build_init_inv:
  assumes inv: "session_inv sod (rng, s)" and eq: "session_build_init sod s n = (s', r)"
  shows "session_inv sod (rng, s')"
  using eq
proof (cases rule: session_build_init_cases)
  case (sent sealed)
  with inv show ?thesis by auto
qed (use inv in simp)

lemma seal_data_inv:
  assumes inv: "session_inv sod (rng, s)" and eq: "session_seal_data sod s p n = (s', r)"
  shows "session_inv sod (rng, s')"
  using eq
proof (cases rule: session_seal_data_cases)
  case (sent sealed)
  with inv show ?thesis by auto
qed (use inv in simp)

lemma session_step_inv:
  assumes ok: "sodium_ok sod" and inv: "session_inv sod st"
  shows "session_inv sod (session_step sod st e)"
proof -
  obtain rng s where st: "st = (rng, s)" by fastforce
  note inv = inv [unfolded st]
  show ?thesis
  proof (cases e)
    case StartHandshake
    then show ?thesis using start_handshake_inv st by simp
  next
    case (BuildInit n)
    with build_init_inv [OF inv, of n] st show ?thesis
      by (cases "session_build_init sod s n") (simp del: session_inv.simps)
  next
    case (HandleInit m n)
    with handle_init_inv [OF ok inv, of m n] st show ?thesis
      by (cases "session_handle_init sod rng s m n") (simp del: session_inv.simps)
  next
    case (HandleResponse m)
    with handle_response_inv [OF ok inv, of m] st show ?thesis
      by (cases "session_handle_response sod s m") (simp del: session_inv.simps)
  next
    case (SealData p n)
    with seal_data_inv [OF inv, of p n] st show ?thesis
      by (cases "session_seal_data sod s p n") (simp del: session_inv.simps)
  next
    case (OpenData m n)
    with open_data_inv [OF inv, of m n] st show ?thesis
      by (cases "session_open_data sod s m n") (simp del: session_inv.simps)
  qed
qed

interpretation session_sys: invariant_system "session_step sod"
  "\<lambda>st. sodium_ok sod \<longrightarrow> session_inv sod st" for sod
  by unfold_locales (blast intro: session_step_inv)

lemma session_init_inv:
  "session_init sod rng now r pk sk peer = Some st \<Longrightarrow> session_inv sod st"
  using start_handshake_inv [of sod rng]
  by (auto simp: session_init_def Let_def split: option.splits)

lemma session_init_fields:
  assumes "session_init sod rng now r pk sk peer = Some st"
  shows "fst st = Suc rng" and "role (snd st) = r" and "state (snd st) = SESSION_STATE_HANDSHAKE_PENDING"
    and "handshake_counter (snd st) = now" and "tx_counter (snd st) = 0"
    and "local_eph_pk (snd st) = fst (kx_keypair sod rng)"
    and "local_eph_sk (snd st) = snd (kx_keypair sod rng)"
    and "\<not> have_seen_handshake (snd st)"
    and "crypto_derive_session_keys sod r pk sk peer = Some (static_keys (snd st))"
  using assms
  by (auto simp: session_init_def Let_def start_handshake_simps session_zero_def split: option.splits)

section \<open>Concrete sessions for the witnesses\<close>

text \<open>Both ends of one relationship over the toy cryptosystem, freshly initialised.\<close>

definition demo_sk :: "nat \<Rightarrow> bytes" where
  "demo_sk i = replicate CRYPTO_SECRET_KEY_BYTES (of_nat i)"

definition demo_session :: "crypto_role \<Rightarrow> nat \<Rightarrow> nat \<Rightarrow> nat \<Rightarrow> nat \<times> session" where
  "demo_session r mine theirs rng =
     the (session_init demo_sodium rng 1000 r (crypto_derive_public_key demo_sodium (demo_sk mine))
            (demo_sk mine) (crypto_derive_public_key demo_sodium (demo_sk theirs)))"

lemma demo_derive:
  "crypto_derive_session_keys demo_sodium r pk (replicate n a) (replicate n b) =
     (if n = 0 \<or> a + 1 + b = 0 then None
      else Some (if r = CRYPTO_ROLE_INITIATOR
                 then \<lparr>rx = replicate n (a + 1 + b), tx = replicate n (NOT (a + 1 + b))\<rparr>
                 else \<lparr>rx = replicate n (NOT (a + 1 + b)), tx = replicate n (a + 1 + b)\<rparr>))"
  by (simp add: crypto_derive_session_keys_def demo_sodium_def demo_kx_def zip_replicate list_all_iff)

lemma demo_session_init:
  assumes "(r, i, j) \<in> {(CRYPTO_ROLE_INITIATOR, 1, 2), (CRYPTO_ROLE_RESPONDER, 2, 1)}"
  shows "session_init demo_sodium rng 1000 r (crypto_derive_public_key demo_sodium (demo_sk i))
      (demo_sk i) (crypto_derive_public_key demo_sodium (demo_sk j)) = Some (demo_session r i j rng)"
  using assms
  by (auto simp: demo_session_def session_init_def Let_def demo_sk_def demo_derive const_defs
      crypto_derive_public_key_def demo_sodium_simps)

end
