(* ===== verification/Session_Safety.thy ===== *)
theory Session_Safety
  imports Session
begin

text \<open>
  Safety of one session over arbitrary runs of its interface, with the messages of an
  adversarial network: the invariant, what a rejected message may change, replay of handshake
  messages and data packets, and the uniqueness of the nonces used under each key.
\<close>

section \<open>Epochs and counters\<close>

text \<open>
  An epoch is the stretch between two ephemeral draws. A step either stays in the epoch, and
  then an established session keeps its data keys and its admitted counters, or opens the
  next one with the transmit counter at zero.
\<close>

definition epoch_step :: "nat \<times> session \<Rightarrow> nat \<times> session \<Rightarrow> bool" where
  "epoch_step st st' \<longleftrightarrow>
     (fst st' = Suc (fst st) \<and> tx_counter (snd st') = 0) \<or>
     (fst st' = fst st \<and>
      tx_counter (snd st') \<in> {tx_counter (snd st), tx_counter (snd st) + 1} \<and>
      (state (snd st) = SESSION_STATE_ESTABLISHED \<longrightarrow>
         state (snd st') = SESSION_STATE_ESTABLISHED \<and> data_keys (snd st') = data_keys (snd st) \<and>
         (\<forall>S. replay_inv (snd st) S \<longrightarrow> (\<exists>S'. S \<subseteq> S' \<and> replay_inv (snd st') S'))))"

text \<open>What no step changes, and the handshake counter a responder remembers only grows.\<close>

definition identity_step :: "session \<Rightarrow> session \<Rightarrow> bool" where
  "identity_step s s' \<longleftrightarrow> role s' = role s \<and> static_keys s' = static_keys s \<and>
     (have_seen_handshake s \<longrightarrow> have_seen_handshake s' \<and>
        highest_handshake_counter_seen s \<le> highest_handshake_counter_seen s')"

lemma epoch_step_refl [simp]: "epoch_step st st"
  by (auto simp: epoch_step_def)

lemma identity_step_refl [simp]: "identity_step s s"
  by (simp add: identity_step_def)

lemma identity_step_trans: "identity_step s t \<Longrightarrow> identity_step t u \<Longrightarrow> identity_step s u"
  by (auto simp: identity_step_def)

lemma start_handshake_steps:
  "epoch_step (rng, s) (session_start_handshake sod rng s)"
  "identity_step s (snd (session_start_handshake sod rng s))"
  using start_handshake_simps [of sod rng s] by (simp_all add: epoch_step_def identity_step_def)

lemma handle_init_steps:
  assumes ok: "sodium_ok sod" and inv: "session_inv sod (rng, s)"
    and eq: "session_handle_init sod rng s inp n = (rng', s', r)"
  shows "epoch_step (rng, s) (rng', s') \<and> identity_step s s'"
  using ok session_invD(1) [OF ok inv] eq
proof (cases rule: session_handle_init_cases)
  case (degenerate body peer_pk counter s1)
  then show ?thesis
    using start_handshake_steps [where rng = rng and s = s and sod = sod]
    by (cases "session_start_handshake sod rng s") (auto split: if_splits)
next
  case (established body peer_pk counter s1 keys sealed)
  have "epoch_step (rng, s) (rng', s1)" "identity_step s s1" "have_seen_handshake s1 = have_seen_handshake s"
    "highest_handshake_counter_seen s1 = highest_handshake_counter_seen s"
    "state s = SESSION_STATE_ESTABLISHED \<Longrightarrow> rng' = Suc rng"
    using established(6) start_handshake_steps [where rng = rng and s = s and sod = sod] start_handshake_simps [of sod rng s]
    by (cases "session_start_handshake sod rng s"; simp split: if_splits)+
  with established(4,9) show ?thesis
    by (auto simp: epoch_step_def identity_step_def)
qed simp

lemma handle_response_steps:
  assumes "session_handle_response sod s inp = (s', b)"
  shows "epoch_step (rng, s) (rng, s') \<and> identity_step s s'"
  using assms
proof (cases rule: session_handle_response_cases)
  case (established body peer_pk keys)
  then show ?thesis by (simp add: epoch_step_def identity_step_def)
qed simp

lemma open_data_steps:
  assumes "session_open_data sod s m n = (s', r)"
  shows "epoch_step (rng, s) (rng, s') \<and> identity_step s s'"
  using assms
proof (cases rule: session_open_data_cases)
  case (opened body out counter b)
  then have s': "s' = fst (replay_check_and_mark s counter)" by simp
  have "\<exists>S'. S \<subseteq> S' \<and> replay_inv s' S'" if "replay_inv s S" for S
    using replay.check_inv [OF that opened(4)] by (cases b) auto
  with opened(1) show ?thesis
    using replay_check_session [of s counter] by (simp add: epoch_step_def identity_step_def s')
qed simp

lemma build_init_steps:
  assumes "session_build_init sod s n = (s', r)"
  shows "epoch_step (rng, s) (rng, s') \<and> identity_step s s'"
  using assms
proof (cases rule: session_build_init_cases)
  case (sent sealed)
  then show ?thesis by (auto simp: epoch_step_def identity_step_def)
qed simp

lemma seal_data_steps:
  assumes "session_seal_data sod s p n = (s', r)"
  shows "epoch_step (rng, s) (rng, s') \<and> identity_step s s'"
  using assms
proof (cases rule: session_seal_data_cases)
  case (sent sealed)
  then show ?thesis by (auto simp: epoch_step_def identity_step_def)
qed simp

lemma session_step_steps:
  assumes ok: "sodium_ok sod" and inv: "session_inv sod st"
  shows "epoch_step st (session_step sod st e) \<and> identity_step (snd st) (snd (session_step sod st e))"
proof -
  obtain rng s where st: "st = (rng, s)" by fastforce
  note inv = inv [unfolded st]
  show ?thesis
  proof (cases e)
    case StartHandshake
    then show ?thesis using start_handshake_steps st by simp
  next
    case (BuildInit n)
    with build_init_steps [of sod s n] st show ?thesis by (cases "session_build_init sod s n") simp
  next
    case (HandleInit m n)
    with handle_init_steps [OF ok inv, of m n] st show ?thesis
      by (cases "session_handle_init sod rng s m n") simp
  next
    case (HandleResponse m)
    with handle_response_steps [of sod s m] st show ?thesis
      by (cases "session_handle_response sod s m") simp
  next
    case (SealData p n)
    with seal_data_steps [of sod s p n] st show ?thesis by (cases "session_seal_data sod s p n") simp
  next
    case (OpenData m n)
    with open_data_steps [of sod s m n] st show ?thesis by (cases "session_open_data sod s m n") simp
  qed
qed

text \<open>Lifted to runs.\<close>

lemma session_run_identity:
  assumes "sodium_ok sod" and "session_inv sod st"
  shows "identity_step (snd st) (snd (session_run sod st es))"
  using assms(2)
proof (induction es arbitrary: st)
  case (Cons e es)
  have "identity_step (snd st) (snd (session_step sod st e))"
    using session_step_steps [OF assms(1) Cons.prems] by simp
  moreover have "session_inv sod (session_step sod st e)"
    using session_step_inv [OF assms(1) Cons.prems] .
  ultimately show ?case
    using Cons.IH [of "session_step sod st e"] by (auto intro: identity_step_trans)
qed simp

lemma session_run_rng_mono:
  assumes "sodium_ok sod" and "session_inv sod st"
  shows "fst st \<le> fst (session_run sod st es)"
  using assms(2)
proof (induction es arbitrary: st)
  case (Cons e es)
  have "fst st \<le> fst (session_step sod st e)"
    using session_step_steps [OF assms(1) Cons.prems, of e] by (auto simp: epoch_step_def)
  with Cons.IH [OF session_step_inv [OF assms(1) Cons.prems, of e]] show ?case
    by simp
qed simp

text \<open>A run that ends in the epoch it started in never left it.\<close>

lemma session_run_same_epoch:
  assumes "sodium_ok sod" and "session_inv sod st"
    and "state (snd st) = SESSION_STATE_ESTABLISHED" and "replay_inv (snd st) S"
    and "fst (session_run sod st es) = fst st"
  shows "state (snd (session_run sod st es)) = SESSION_STATE_ESTABLISHED \<and>
    data_keys (snd (session_run sod st es)) = data_keys (snd st) \<and>
    (\<exists>S'. S \<subseteq> S' \<and> replay_inv (snd (session_run sod st es)) S')"
  using assms(2-)
proof (induction es arbitrary: st S)
  case (Cons e es)
  let ?st1 = "session_step sod st e"
  have inv1: "session_inv sod ?st1"
    using session_step_inv [OF assms(1) Cons.prems(1)] .
  have le: "fst ?st1 \<le> fst st"
    using session_run_rng_mono [OF assms(1) inv1, of es] Cons.prems(4) by simp
  have ep: "epoch_step st ?st1"
    using session_step_steps [OF assms(1) Cons.prems(1)] by simp
  with le have same: "fst ?st1 = fst st" by (auto simp: epoch_step_def)
  with ep Cons.prems(2,3) obtain S1 where
    "state (snd ?st1) = SESSION_STATE_ESTABLISHED" "data_keys (snd ?st1) = data_keys (snd st)"
    "S \<subseteq> S1" "replay_inv (snd ?st1) S1"
    by (auto simp: epoch_step_def)
  with Cons.IH [OF inv1, of S1] Cons.prems(4) same show ?case
    by auto
qed auto

section \<open>Nonces\<close>

lemma data_nonces_bound:
  assumes "sodium_ok sod" and "session_inv sod st"
    and "unat (tx_counter (snd st)) + length es < 2 ^ 64"
    and "(r, c) \<in> set (data_nonces sod st es)"
  shows "fst st < r \<or> (r = fst st \<and> tx_counter (snd st) \<le> c)"
  using assms(2-)
proof (induction es arbitrary: st)
  case (Cons e es)
  let ?st1 = "session_step sod st e"
  have ep: "epoch_step st ?st1"
    using session_step_steps [OF assms(1) Cons.prems(1)] by simp
  have tx1: "unat (tx_counter (snd st) + 1) = Suc (unat (tx_counter (snd st)))"
    using Cons.prems(2) by (simp add: unat_plus_if')
  have room: "unat (tx_counter (snd ?st1)) + length es < 2 ^ 64"
    using ep Cons.prems(2) tx1 by (auto simp: epoch_step_def)
  from Cons.prems(3) consider (here) "r = fst st" "c = tx_counter (snd st)"
    | (later) "(r, c) \<in> set (data_nonces sod ?st1 es)"
    by (auto split: session_event.splits prod.splits option.splits)
  then show ?case
  proof cases
    case later
    from Cons.IH [OF session_step_inv [OF assms(1) Cons.prems(1)] room later] ep tx1
    show ?thesis
      by (auto simp: epoch_step_def word_le_nat_alt)
  qed simp
qed simp

lemma data_nonces_distinct:
  assumes "sodium_ok sod" and "session_inv sod st"
    and "unat (tx_counter (snd st)) + length es < 2 ^ 64"
  shows "distinct (data_nonces sod st es)"
  using assms(2-)
proof (induction es arbitrary: st)
  case (Cons e es)
  let ?st1 = "session_step sod st e"
  have inv1: "session_inv sod ?st1"
    using session_step_inv [OF assms(1) Cons.prems(1)] .
  have ep: "epoch_step st ?st1"
    using session_step_steps [OF assms(1) Cons.prems(1)] by simp
  have tx1: "unat (tx_counter (snd st) + 1) = Suc (unat (tx_counter (snd st)))"
    using Cons.prems(2) by (simp add: unat_plus_if')
  have room: "unat (tx_counter (snd ?st1)) + length es < 2 ^ 64"
    using ep Cons.prems(2) tx1 by (auto simp: epoch_step_def)
  have dist: "distinct (data_nonces sod ?st1 es)"
    using Cons.IH [OF inv1 room] .
  show ?case
  proof (cases "\<exists>p n s' m. e = SealData p n \<and> session_seal_data sod (snd st) p n = (s', Some m)")
    case True
    then obtain p n s' m where e: "e = SealData p n"
      and seal: "session_seal_data sod (snd st) p n = (s', Some m)"
      by blast
    have st1: "?st1 = (fst st, s')"
      using e seal by (cases st) simp
    have "tx_counter s' = tx_counter (snd st) + 1"
      using seal by (cases rule: session_seal_data_cases) simp_all
    then have "(fst st, tx_counter (snd st)) \<notin> set (data_nonces sod ?st1 es)"
      using data_nonces_bound [OF assms(1) inv1 room, of "fst st" "tx_counter (snd st)"] st1 tx1
      by (auto simp: word_le_nat_alt)
    with dist e seal show ?thesis by simp
  next
    case False
    then have "data_nonces sod st (e # es) = data_nonces sod ?st1 es"
      by (auto split: session_event.splits prod.splits option.splits)
    with dist show ?thesis by simp
  qed
qed simp

text \<open>A counter a session may still put on a handshake message.\<close>

definition hs_fresh :: "session \<Rightarrow> u64 \<Rightarrow> bool" where
  "hs_fresh s c \<longleftrightarrow>
     (case role s of
        CRYPTO_ROLE_INITIATOR \<Rightarrow> handshake_counter s \<le> c
      | CRYPTO_ROLE_RESPONDER \<Rightarrow> have_seen_handshake s \<longrightarrow> highest_handshake_counter_seen s < c)"

lemma handshake_counter_kept:
  assumes ok: "sodium_ok sod" and inv: "session_inv sod st" and "\<And>n. e \<noteq> BuildInit n"
  shows "handshake_counter (snd (session_step sod st e)) = handshake_counter (snd st)"
proof -
  obtain rng s where st: "st = (rng, s)" by fastforce
  show ?thesis
  proof (cases e)
    case StartHandshake
    with st start_handshake_simps [of sod rng s] show ?thesis by simp
  next
    case (HandleInit m n)
    obtain rng' s' r where h: "session_handle_init sod rng s m n = (rng', s', r)"
      by (cases "session_handle_init sod rng s m n") auto
    note ok session_invD(1) [OF ok inv [unfolded st]] h
    then have "handshake_counter s' = handshake_counter s"
    proof (cases rule: session_handle_init_cases)
      case (degenerate body peer_pk counter s1)
      with start_handshake_simps(8) [of sod rng s] show ?thesis
        by (cases "session_start_handshake sod rng s") (simp split: if_splits)
    next
      case (established body peer_pk counter s1 keys sealed)
      with start_handshake_simps(8) [of sod rng s] show ?thesis
        by (cases "session_start_handshake sod rng s") (simp split: if_splits)
    qed simp
    with HandleInit st h show ?thesis by simp
  next
    case (HandleResponse m)
    obtain s' r where b: "session_handle_response sod s m = (s', r)" by fastforce
    then have "handshake_counter s' = handshake_counter s"
      by (cases rule: session_handle_response_cases) simp_all
    with HandleResponse st b show ?thesis by simp
  next
    case (SealData p n)
    obtain s' r where b: "session_seal_data sod s p n = (s', r)" by fastforce
    then have "handshake_counter s' = handshake_counter s"
      by (cases rule: session_seal_data_cases) simp_all
    with SealData st b show ?thesis by simp
  next
    case (OpenData m n)
    with st show ?thesis
      by (auto simp: session_open_data_def replay_check_and_mark_def Let_def split: option.splits)
  qed (use assms(3) in simp)
qed

lemma handshake_counter_step:
  assumes ok: "sodium_ok sod" and inv: "session_inv sod st"
  shows "handshake_counter (snd (session_step sod st e)) \<in>
    {handshake_counter (snd st), handshake_counter (snd st) + 1}"
proof (cases "\<exists>n. e = BuildInit n")
  case True
  then obtain n where e: "e = BuildInit n" by blast
  obtain s' r where b: "session_build_init sod (snd st) n = (s', r)" by fastforce
  then have "handshake_counter s' \<in> {handshake_counter (snd st), handshake_counter (snd st) + 1}"
    by (cases rule: session_build_init_cases) simp_all
  with e b show ?thesis by (cases st) simp
next
  case False
  then show ?thesis using handshake_counter_kept [OF ok inv, of e] by simp
qed

lemma hs_fresh_mono:
  assumes ok: "sodium_ok sod" and inv: "session_inv sod st"
    and room: "unat (handshake_counter (snd st)) < 2 ^ 64 - 1"
    and "hs_fresh (snd (session_step sod st e)) c"
  shows "hs_fresh (snd st) c"
proof -
  have "unat (handshake_counter (snd st) + 1) = Suc (unat (handshake_counter (snd st)))"
    using room by (simp add: unat_plus_if')
  moreover have "identity_step (snd st) (snd (session_step sod st e))"
    using session_step_steps [OF ok inv] by simp
  ultimately show ?thesis
    using handshake_counter_step [OF ok inv, of e] assms(4)
    by (auto simp: hs_fresh_def identity_step_def word_le_nat_alt word_less_nat_alt
        split: crypto_role.splits)
qed

text \<open>The counter a step puts on the handshake message it sends, if it sends one.\<close>

definition step_nonces :: "sodium \<Rightarrow> nat \<times> session \<Rightarrow> session_event \<Rightarrow> u64 list" where
  "step_nonces sod st e = handshake_nonces sod st [e]"

lemma handshake_nonces_Cons:
  "handshake_nonces sod st (e # es) = step_nonces sod st e @ handshake_nonces sod (session_step sod st e) es"
  by (simp add: step_nonces_def)

lemma step_nonces_fresh:
  assumes ok: "sodium_ok sod" and inv: "session_inv sod st"
    and room: "unat (handshake_counter (snd st)) < 2 ^ 64 - 1"
  shows "step_nonces sod st e = [] \<or>
    (\<exists>c. step_nonces sod st e = [c] \<and> hs_fresh (snd st) c \<and> \<not> hs_fresh (snd (session_step sod st e)) c)"
proof -
  obtain rng s where st: "st = (rng, s)" by fastforce
  have inc: "unat (handshake_counter s + 1) = Suc (unat (handshake_counter s))"
    using room st by (simp add: unat_plus_if')
  show ?thesis
  proof (cases e)
    case (BuildInit n)
    obtain s' r where b: "session_build_init sod s n = (s', r)" by fastforce
    then show ?thesis
    proof (cases rule: session_build_init_cases)
      case (sent sealed)
      with b BuildInit st inc crypto_seal_counter [OF sent(3)] show ?thesis
        by (simp add: step_nonces_def hs_fresh_def word_le_nat_alt)
    qed (use b BuildInit st in \<open>simp add: step_nonces_def\<close>)
  next
    case (HandleInit m n)
    obtain rng' s' r where h: "session_handle_init sod rng s m n = (rng', s', r)"
      by (cases "session_handle_init sod rng s m n") auto
    note ok session_invD(1) [OF ok inv [unfolded st]] h
    then show ?thesis
    proof (cases rule: session_handle_init_cases)
      case (established body peer_pk counter s1 keys sealed)
      have "role s1 = role s"
        using established(6) start_handshake_simps(2) [of sod rng s]
        by (cases "session_start_handshake sod rng s") (simp split: if_splits)
      with established h HandleInit st crypto_seal_counter [OF established(8)] show ?thesis
        by (simp add: step_nonces_def hs_fresh_def) auto
    qed (use h HandleInit st in \<open>simp_all add: step_nonces_def\<close>)
  qed (simp_all add: step_nonces_def)
qed

lemma handshake_nonces_fresh:
  assumes "sodium_ok sod" and "session_inv sod st"
    and "unat (handshake_counter (snd st)) + length es < 2 ^ 64 - 1"
    and "c \<in> set (handshake_nonces sod st es)"
  shows "hs_fresh (snd st) c"
  using assms(2-)
proof (induction es arbitrary: st)
  case (Cons e es)
  let ?st1 = "session_step sod st e"
  have room1: "unat (handshake_counter (snd ?st1)) + length es < 2 ^ 64 - 1"
    using handshake_counter_step [OF assms(1) Cons.prems(1), of e] Cons.prems(2)
    by (auto simp: unat_plus_if' split: if_splits)
  from Cons.prems(3) consider "c \<in> set (step_nonces sod st e)" | "c \<in> set (handshake_nonces sod ?st1 es)"
    by (auto simp: handshake_nonces_Cons simp del: handshake_nonces.simps(2))
  then show ?case
  proof cases
    case 1
    with step_nonces_fresh [OF assms(1) Cons.prems(1), of e] Cons.prems(2) show ?thesis by auto
  next
    case 2
    from Cons.IH [OF session_step_inv [OF assms(1) Cons.prems(1)] room1 2] show ?thesis
      by (rule hs_fresh_mono [OF assms(1) Cons.prems(1), rotated]) (use Cons.prems(2) in simp)
  qed
qed simp

lemma handshake_nonces_distinct:
  assumes "sodium_ok sod" and "session_inv sod st"
    and "unat (handshake_counter (snd st)) + length es < 2 ^ 64 - 1"
  shows "distinct (handshake_nonces sod st es)"
  using assms(2-)
proof (induction es arbitrary: st)
  case (Cons e es)
  let ?st1 = "session_step sod st e"
  have inv1: "session_inv sod ?st1"
    using session_step_inv [OF assms(1) Cons.prems(1)] .
  have room1: "unat (handshake_counter (snd ?st1)) + length es < 2 ^ 64 - 1"
    using handshake_counter_step [OF assms(1) Cons.prems(1), of e] Cons.prems(2)
    by (auto simp: unat_plus_if' split: if_splits)
  have "set (step_nonces sod st e) \<inter> set (handshake_nonces sod ?st1 es) = {}"
    using step_nonces_fresh [OF assms(1) Cons.prems(1), of e] Cons.prems(2)
      handshake_nonces_fresh [OF assms(1) inv1 room1] by auto
  moreover have "distinct (step_nonces sod st e)"
    using step_nonces_fresh [OF assms(1) Cons.prems(1), of e] Cons.prems(2) by auto
  ultimately show ?case
    using Cons.IH [OF inv1 room1] by (simp add: handshake_nonces_Cons del: handshake_nonces.simps(2))
qed simp

section \<open>Message sizes\<close>

lemma session_build_init_length:
  assumes "sodium_ok sod" and "session_inv sod (rng, s)" and "session_build_init sod s n = (s', Some m)"
  shows "length m = SESSION_HANDSHAKE_MSG_LEN \<and> SESSION_HANDSHAKE_MSG_LEN \<le> n"
  using assms(3)
proof (cases rule: session_build_init_cases)
  case (sent sealed)
  from crypto_seal_length [OF sodium_okD(1) [OF assms(1)] sent(3)] sent(5)
    session_invD(1) [OF assms(1,2)] show ?thesis
    by (simp add: const_defs)
qed simp

lemma session_handle_init_length:
  assumes ok: "sodium_ok sod" and inv: "session_inv sod (rng, s)"
    and eq: "session_handle_init sod rng s inp n = (rng', s', Some m)"
  shows "length m = SESSION_HANDSHAKE_MSG_LEN \<and> SESSION_HANDSHAKE_MSG_LEN \<le> n"
  using ok session_invD(1) [OF ok inv] eq
proof (cases rule: session_handle_init_cases)
  case (established body peer_pk counter s1 keys sealed)
  have "length (local_eph_pk s1) = CRYPTO_PUBLIC_KEY_BYTES"
    using restart_inv [OF inv established(6) [symmetric]] session_invD(1) [OF ok] by blast
  with crypto_seal_length [OF sodium_okD(1) [OF ok] established(8)] established show ?thesis
    by (simp add: const_defs)
qed simp_all

lemma session_seal_data_length:
  assumes "sodium_ok sod" and "session_seal_data sod s p n = (s', Some m)"
  shows "length m = length p + SESSION_DATA_OVERHEAD \<and> length m \<le> n"
  using assms(2)
proof (cases rule: session_seal_data_cases)
  case (sent sealed)
  from crypto_seal_length [OF sodium_okD(1) [OF assms(1)] sent(3)] sent(2,5) show ?thesis
    by (simp add: const_defs)
qed simp

section \<open>The two ends of a relationship\<close>

text \<open>An initiator and a responder whose static keys belong together.\<close>

definition paired :: "session \<Rightarrow> session \<Rightarrow> bool" where
  "paired a b \<longleftrightarrow> role a = CRYPTO_ROLE_INITIATOR \<and> role b = CRYPTO_ROLE_RESPONDER \<and>
     tx (static_keys a) = rx (static_keys b) \<and> rx (static_keys a) = tx (static_keys b)"

text \<open>An initiator and a responder that share data keys.\<close>

definition linked :: "session \<Rightarrow> session \<Rightarrow> bool" where
  "linked a b \<longleftrightarrow> state a = SESSION_STATE_ESTABLISHED \<and> state b = SESSION_STATE_ESTABLISHED \<and>
     tx (data_keys a) = rx (data_keys b) \<and> rx (data_keys a) = tx (data_keys b)"

lemma session_init_paired:
  assumes "kx_correct sod"
    and "session_init sod i now CRYPTO_ROLE_INITIATOR (crypto_derive_public_key sod ska) ska
      (crypto_derive_public_key sod skb) = Some (ra, a)"
    and "session_init sod j now' CRYPTO_ROLE_RESPONDER (crypto_derive_public_key sod skb) skb
      (crypto_derive_public_key sod ska) = Some (rb, b)"
  shows "paired a b \<and> state a = SESSION_STATE_HANDSHAKE_PENDING \<and> \<not> have_seen_handshake b"
  using assms(2,3) derive_agree [OF assms(1), of skb ska]
  by (auto simp: session_init_def Let_def session_start_handshake_def crypto_generate_keypair_def
      paired_def session_zero_def split: option.splits prod.splits)

lemma derive_draws:
  assumes "sodium_ok sod" and "kx_correct sod" and "kx_draws_correct sod"
  obtains k where
    "crypto_derive_session_keys sod CRYPTO_ROLE_INITIATOR (fst (kx_keypair sod i)) (snd (kx_keypair sod i))
       (fst (kx_keypair sod j)) = Some k"
    "crypto_derive_session_keys sod CRYPTO_ROLE_RESPONDER (fst (kx_keypair sod j)) (snd (kx_keypair sod j))
       (fst (kx_keypair sod i)) = Some \<lparr>rx = tx k, tx = rx k\<rparr>"
proof -
  have "kx_client_session_keys sod (fst (kx_keypair sod i)) (snd (kx_keypair sod i)) (fst (kx_keypair sod j)) \<noteq> None"
    using assms(3) unfolding kx_draws_correct_def by blast
  then obtain k where "crypto_derive_session_keys sod CRYPTO_ROLE_INITIATOR (fst (kx_keypair sod i))
      (snd (kx_keypair sod i)) (fst (kx_keypair sod j)) = Some k"
    by (auto simp: crypto_derive_session_keys_def split: option.splits prod.splits)
  with derive_agree [OF assms(2), of "snd (kx_keypair sod j)" "snd (kx_keypair sod i)"]
    kx_keypair_facts(3) [OF assms(1)] that show thesis
    by (metis option.simps(9))
qed

text \<open>An init that opens, is fresh, and carries a drawn key is answered.\<close>

lemma handle_init_answers:
  assumes ok: "sodium_ok sod" and kx: "kx_correct sod" "kx_draws_correct sod"
    and inv: "session_inv sod (rng, s)" and role: "role s = CRYPTO_ROLE_RESPONDER"
    and opens: "open_handshake sod s body = Some (fst (kx_keypair sod i), counter)"
    and fresh: "have_seen_handshake s \<longrightarrow> highest_handshake_counter_seen s < counter"
    and room: "SESSION_HANDSHAKE_MSG_LEN \<le> n"
  obtains rng' s' j k sealed where
    "session_handle_init sod rng s (SESSION_MSG_HANDSHAKE_INIT # body) n =
       (rng', s', Some (SESSION_MSG_HANDSHAKE_RESPONSE # sealed))"
    "state s' = SESSION_STATE_ESTABLISHED"
    "crypto_seal sod (tx (static_keys s)) counter (fst (kx_keypair sod j)) (n - 1) = Some sealed"
    "crypto_derive_session_keys sod CRYPTO_ROLE_INITIATOR (fst (kx_keypair sod i)) (snd (kx_keypair sod i))
       (fst (kx_keypair sod j)) = Some k"
    "data_keys s' = \<lparr>rx = tx k, tx = rx k\<rparr>" "replay_inv s' {}"
proof -
  obtain rng1 s1 where g: "(if state s = SESSION_STATE_ESTABLISHED
      then session_start_handshake sod rng s else (rng, s)) = (rng1, s1)"
    by fastforce
  have frame: "role s1 = role s" "static_keys s1 = static_keys s"
    using g start_handshake_simps(2,3) [of sod rng s]
    by (cases "session_start_handshake sod rng s"; simp split: if_splits)+
  have "session_inv sod (rng1, s1)" "state s1 = SESSION_STATE_HANDSHAKE_PENDING"
    using restart_inv [OF inv g] by blast+
  then obtain j where j: "local_eph_pk s1 = fst (kx_keypair sod j)"
    "local_eph_sk s1 = snd (kx_keypair sod j)" "replay_inv s1 {}"
    by auto
  obtain k where k: "crypto_derive_session_keys sod CRYPTO_ROLE_INITIATOR (fst (kx_keypair sod i))
      (snd (kx_keypair sod i)) (fst (kx_keypair sod j)) = Some k"
    "crypto_derive_session_keys sod CRYPTO_ROLE_RESPONDER (fst (kx_keypair sod j))
      (snd (kx_keypair sod j)) (fst (kx_keypair sod i)) = Some \<lparr>rx = tx k, tx = rx k\<rparr>"
    by (rule derive_draws [OF ok kx])
  have "crypto_seal sod (tx (static_keys s)) counter (fst (kx_keypair sod j)) (n - 1) \<noteq> None"
    using room kx_keypair_facts(1) [OF ok, of j] crypto_seal_None [OF sodium_okD(1) [OF ok]]
    by (simp add: const_defs)
  then obtain sealed where seal:
    "crypto_seal sod (tx (static_keys s)) counter (fst (kx_keypair sod j)) (n - 1) = Some sealed"
    by blast
  have answer: "session_handle_init sod rng s (SESSION_MSG_HANDSHAKE_INIT # body) n =
      (rng1, s1\<lparr>data_keys := \<lparr>rx = tx k, tx = rx k\<rparr>,
         local_eph_sk := crypto_wipe sod (local_eph_sk s1), have_seen_handshake := True,
         highest_handshake_counter_seen := counter, state := SESSION_STATE_ESTABLISHED\<rparr>,
       Some (SESSION_MSG_HANDSHAKE_RESPONSE # sealed))"
    using role opens fresh room frame j(1,2) k(2) seal
    by (simp add: session_handle_init_def g not_less not_le)
  show thesis
    by (rule that [OF answer]) (use k(1) seal j(3) in simp_all)
qed

text \<open>A whole handshake: the initiator's init is answered and the answer is accepted.\<close>

lemma handshake_completes:
  assumes ok: "sodium_ok sod" and kx: "kx_correct sod" "kx_draws_correct sod"
    and inva: "session_inv sod (ra, a)" and invb: "session_inv sod (rb, b)"
    and pair: "paired a b" and pend: "state a = SESSION_STATE_HANDSHAKE_PENDING"
    and fresh: "have_seen_handshake b \<longrightarrow> highest_handshake_counter_seen b < handshake_counter a"
    and room: "SESSION_HANDSHAKE_MSG_LEN \<le> n" "SESSION_HANDSHAKE_MSG_LEN \<le> n'"
  obtains a1 m1 rb' b' m2 a2 where
    "session_build_init sod a n = (a1, Some m1)"
    "session_handle_init sod rb b m1 n' = (rb', b', Some m2)"
    "session_handle_response sod a1 m2 = (a2, True)"
    "linked a2 b'" "replay_inv a2 {}" "replay_inv b' {}" "tx_counter a2 = 0"
    "open_handshake sod b (tl m1) = Some (local_eph_pk a, handshake_counter a)"
proof -
  have aead: "aead_correct sod" by (rule sodium_okD(1) [OF ok])
  obtain i where i: "local_eph_pk a = fst (kx_keypair sod i)" "local_eph_sk a = snd (kx_keypair sod i)"
    "tx_counter a = 0" "replay_inv a {}"
    using inva pend by auto
  note len = kx_keypair_facts(1) [OF ok]
  have "crypto_seal sod (tx (static_keys a)) (handshake_counter a) (fst (kx_keypair sod i)) (n - 1) \<noteq> None"
    using room(1) len [of i] crypto_seal_None [OF aead] by (simp add: const_defs)
  then obtain sealed where seal:
    "crypto_seal sod (tx (static_keys a)) (handshake_counter a) (fst (kx_keypair sod i)) (n - 1) = Some sealed"
    by blast
  define a1 where "a1 = a\<lparr>pending_handshake_counter := handshake_counter a,
    handshake_counter := handshake_counter a + 1\<rparr>"
  have build: "session_build_init sod a n = (a1, Some (SESSION_MSG_HANDSHAKE_INIT # sealed))"
    using pair pend room(1) i(1) seal by (simp add: session_build_init_def paired_def a1_def)
  have opens: "open_handshake sod b sealed = Some (fst (kx_keypair sod i), handshake_counter a)"
    using crypto_open_seal [OF aead seal, of CRYPTO_PUBLIC_KEY_BYTES] pair len [of i]
    by (simp add: open_handshake_def paired_def const_defs)
  have rb: "role b = CRYPTO_ROLE_RESPONDER" using pair by (simp add: paired_def)
  obtain rb' b' j k sealed' where answer:
    "session_handle_init sod rb b (SESSION_MSG_HANDSHAKE_INIT # sealed) n' =
       (rb', b', Some (SESSION_MSG_HANDSHAKE_RESPONSE # sealed'))"
    "state b' = SESSION_STATE_ESTABLISHED"
    "crypto_seal sod (tx (static_keys b)) (handshake_counter a) (fst (kx_keypair sod j)) (n' - 1) = Some sealed'"
    "crypto_derive_session_keys sod CRYPTO_ROLE_INITIATOR (fst (kx_keypair sod i)) (snd (kx_keypair sod i))
       (fst (kx_keypair sod j)) = Some k"
    "data_keys b' = \<lparr>rx = tx k, tx = rx k\<rparr>" "replay_inv b' {}"
    by (rule handle_init_answers [OF ok kx invb rb opens fresh room(2)])
  have "open_handshake sod a1 sealed' = Some (fst (kx_keypair sod j), handshake_counter a)"
    using crypto_open_seal [OF aead answer(3), of CRYPTO_PUBLIC_KEY_BYTES] pair len [of j]
    by (simp add: open_handshake_def paired_def a1_def const_defs)
  then have response: "session_handle_response sod a1 (SESSION_MSG_HANDSHAKE_RESPONSE # sealed') =
      (a1\<lparr>data_keys := k, local_eph_sk := crypto_wipe sod (local_eph_sk a1),
          state := SESSION_STATE_ESTABLISHED\<rparr>, True)"
    using pair pend i(1,2) answer(4) by (simp add: session_handle_response_def paired_def a1_def)
  show thesis
    by (rule that [OF build answer(1) response])
       (use answer(2,5,6) i(1,3,4) opens in \<open>simp_all add: linked_def a1_def\<close>)
qed

text \<open>A sealed packet reaches the linked end exactly once.\<close>

lemma data_delivered:
  assumes ok: "sodium_ok sod" and keys: "tx (data_keys a) = rx (data_keys b)"
    and est: "state b = SESSION_STATE_ESTABLISHED"
    and seal: "session_seal_data sod a p n = (a', Some m)"
    and fresh: "replay_inv b S" "replay_admissible S (tx_counter a)" and room: "length p \<le> n'"
  shows "\<exists>b'. session_open_data sod b m n' = (b', Opened p) \<and>
    replay_inv b' (insert (tx_counter a) S) \<and> session_open_data sod b' m n' = (b', OpenReplayed p)"
proof -
  from seal obtain sealed where s: "m = SESSION_MSG_DATA # sealed"
    "crypto_seal sod (tx (data_keys a)) (tx_counter a) p (n - 1) = Some sealed"
    by (cases rule: session_seal_data_cases) auto
  have opens: "crypto_open sod (rx (data_keys b)) sealed n' = Some (p, tx_counter a)"
    using crypto_open_seal [OF sodium_okD(1) [OF ok] s(2), of n'] keys room by simp
  obtain b' acc where c: "replay_check_and_mark b (tx_counter a) = (b', acc)" by fastforce
  with replay_refines_core [OF fresh(1) c] fresh(2) have "acc" and inv: "replay_inv b' (insert (tx_counter a) S)"
    by (auto split: if_splits)
  have "b' = fst (replay_check_and_mark b (tx_counter a))" using c by simp
  then have "state b' = state b" "data_keys b' = data_keys b"
    using replay_check_session by simp_all
  moreover have "replay_check_and_mark b' (tx_counter a) = (b', False)"
    by (rule replay.replay_rejected [OF inv]) simp
  ultimately show ?thesis
    using c \<open>acc\<close> opens est s(1) inv by (simp add: session_open_data_def)
qed

text \<open>Both demonstration ends are set up for each other.\<close>

lemma demo_ends:
  "session_inv demo_sodium (demo_session CRYPTO_ROLE_INITIATOR 1 2 i)"
  "session_inv demo_sodium (demo_session CRYPTO_ROLE_RESPONDER 2 1 j)"
  "paired (snd (demo_session CRYPTO_ROLE_INITIATOR 1 2 i)) (snd (demo_session CRYPTO_ROLE_RESPONDER 2 1 j))"
  "state (snd (demo_session CRYPTO_ROLE_INITIATOR 1 2 i)) = SESSION_STATE_HANDSHAKE_PENDING"
  "\<not> have_seen_handshake (snd (demo_session CRYPTO_ROLE_RESPONDER 2 1 j))"
proof -
  have a: "session_init demo_sodium i 1000 CRYPTO_ROLE_INITIATOR
      (crypto_derive_public_key demo_sodium (demo_sk 1)) (demo_sk 1)
      (crypto_derive_public_key demo_sodium (demo_sk 2)) = Some (demo_session CRYPTO_ROLE_INITIATOR 1 2 i)"
    and b: "session_init demo_sodium j 1000 CRYPTO_ROLE_RESPONDER
      (crypto_derive_public_key demo_sodium (demo_sk 2)) (demo_sk 2)
      (crypto_derive_public_key demo_sodium (demo_sk 1)) = Some (demo_session CRYPTO_ROLE_RESPONDER 2 1 j)"
    by (rule demo_session_init; simp)+
  show "session_inv demo_sodium (demo_session CRYPTO_ROLE_INITIATOR 1 2 i)"
    "session_inv demo_sodium (demo_session CRYPTO_ROLE_RESPONDER 2 1 j)"
    using session_init_inv [OF a] session_init_inv [OF b] by simp_all
  obtain ra sa rb sb where "demo_session CRYPTO_ROLE_INITIATOR 1 2 i = (ra, sa)"
    "demo_session CRYPTO_ROLE_RESPONDER 2 1 j = (rb, sb)"
    by fastforce
  with session_init_paired [OF demo_kx_correct a [unfolded this(1)] b [unfolded this(2)]]
  show "paired (snd (demo_session CRYPTO_ROLE_INITIATOR 1 2 i)) (snd (demo_session CRYPTO_ROLE_RESPONDER 2 1 j))"
    "state (snd (demo_session CRYPTO_ROLE_INITIATOR 1 2 i)) = SESSION_STATE_HANDSHAKE_PENDING"
    "\<not> have_seen_handshake (snd (demo_session CRYPTO_ROLE_RESPONDER 2 1 j))"
    by simp_all
qed

text \<open>A completed handshake between them.\<close>

lemma demo_handshake:
  obtains a1 m1 rb' b' m2 a2 where
    "session_build_init demo_sodium (snd (demo_session CRYPTO_ROLE_INITIATOR 1 2 i)) 57 = (a1, Some m1)"
    "session_handle_init demo_sodium (fst (demo_session CRYPTO_ROLE_RESPONDER 2 1 j))
       (snd (demo_session CRYPTO_ROLE_RESPONDER 2 1 j)) m1 57 = (rb', b', Some m2)"
    "session_handle_response demo_sodium a1 m2 = (a2, True)"
    "linked a2 b'" "replay_inv a2 {}" "replay_inv b' {}" "tx_counter a2 = 0"
    "open_handshake demo_sodium (snd (demo_session CRYPTO_ROLE_RESPONDER 2 1 j)) (tl m1) =
       Some (fst (kx_keypair demo_sodium i), 1000)"
proof -
  obtain ra a where a: "demo_session CRYPTO_ROLE_INITIATOR 1 2 i = (ra, a)" by fastforce
  obtain rb b where b: "demo_session CRYPTO_ROLE_RESPONDER 2 1 j = (rb, b)" by fastforce
  note ends = demo_ends(1) [of i, unfolded a] demo_ends(2) [of j, unfolded b]
    demo_ends(3) [of i j, unfolded a b snd_conv] demo_ends(4) [of i, unfolded a snd_conv]
    demo_ends(5) [of j, unfolded b snd_conv]
  have eph: "local_eph_pk a = fst (kx_keypair demo_sodium i)" "handshake_counter a = 1000"
    using session_init_fields(4,6) [OF demo_session_init [of CRYPTO_ROLE_INITIATOR 1 2 i]] a by simp_all
  show thesis
    using handshake_completes [OF demo_sodium_ok demo_kx_correct demo_kx_draws_correct ends(1-4), of 57 57]
      ends(5) eph that [unfolded a b fst_conv snd_conv] by (auto simp: const_defs)
qed

section \<open>Properties\<close>

text \<open>C19. From \<open>session_init\<close> on, whatever calls are made and whatever messages arrive, the
  session invariant holds: a pending handshake holds an ephemeral pair that was really drawn
  and a reset data channel; an established session has erased its ephemeral secret key and
  its data keys were derived from a drawn pair; the replay window represents a set of
  admitted counters.\<close>

theorem session_invariant_all_runs:
  assumes "sodium_ok sod" and "session_init sod rng now r pk sk peer_pk = Some st"
  shows "session_inv sod (session_run sod st es)"
  using session_sys.run_inv [of sod st es] session_init_inv [OF assms(2)] assms(1) by simp

theorem session_invariant_all_runs_witness:
  "session_inv demo_sodium (session_run demo_sodium (demo_session CRYPTO_ROLE_RESPONDER 2 1 7)
     [StartHandshake, HandleInit [1, 2, 3] 57, OpenData [3] 100])"
  by (rule session_invariant_all_runs [OF demo_sodium_ok demo_session_init]) simp

text \<open>C36. A handshake init that is not answered changes nothing at all, neither the session nor
  the number of key pairs drawn, except when it authenticated, was fresh, and carried an
  ephemeral key with which the key exchange fails.\<close>

theorem unanswered_init_is_noop:
  assumes "sodium_ok sod" and "session_inv sod (rng, s)"
    and "session_handle_init sod rng s inp out_len = (rng', s', None)"
  shows "(rng' = rng \<and> s' = s) \<or>
    (\<exists>body peer_pk counter. inp = SESSION_MSG_HANDSHAKE_INIT # body \<and>
       open_handshake sod s body = Some (peer_pk, counter) \<and>
       (have_seen_handshake s \<longrightarrow> highest_handshake_counter_seen s < counter) \<and>
       crypto_derive_session_keys sod (role s') (local_eph_pk s') (local_eph_sk s') peer_pk = None)"
  using assms(1) session_invD(1) [OF assms(1,2)] assms(3)
  by (cases rule: session_handle_init_cases) auto

theorem unanswered_init_is_noop_witness:
  "session_handle_init demo_sodium 8 (snd (demo_session CRYPTO_ROLE_RESPONDER 2 1 7)) [9, 9] 57 =
     (8, snd (demo_session CRYPTO_ROLE_RESPONDER 2 1 7), None)"
proof -
  let ?st = "demo_session CRYPTO_ROLE_RESPONDER 2 1 7"
  have "session_inv demo_sodium ?st"
    using session_init_inv [OF demo_session_init [of CRYPTO_ROLE_RESPONDER 2 1 7]] by simp
  moreover have "fst ?st = 8"
    using session_init_fields(1) [OF demo_session_init [of CRYPTO_ROLE_RESPONDER 2 1 7]] by simp
  ultimately have inv: "session_inv demo_sodium (8, snd ?st)" by (metis prod.collapse)
  have r: "snd (snd (session_handle_init demo_sodium 8 (snd ?st) [9, 9] 57)) = None"
    by (simp add: session_handle_init_def const_defs)
  obtain rng' s' where h: "session_handle_init demo_sodium 8 (snd ?st) [9, 9] 57 = (rng', s', None)"
    using r by (metis prod.collapse)
  from unanswered_init_is_noop [OF demo_sodium_ok inv h] h show ?thesis
    by (simp add: const_defs)
qed

text \<open>C21. A handshake init is answered at most once in the life of the process: after it has
  been answered, whatever happens in between, presenting the same bytes again is refused and
  leaves the session as it is.\<close>

theorem replayed_init_refused:
  assumes "sodium_ok sod" and "session_inv sod (rng, s)"
    and "session_handle_init sod rng s msg n = (rng1, s1, Some response)"
    and "session_run sod (rng1, s1) es = (rng2, s2)"
  shows "session_handle_init sod rng2 s2 msg n' = (rng2, s2, None)"
proof -
  have "\<exists>body peer_pk counter. msg = SESSION_MSG_HANDSHAKE_INIT # body \<and>
      open_handshake sod s body = Some (peer_pk, counter) \<and> have_seen_handshake s1 \<and>
      highest_handshake_counter_seen s1 = counter"
    using assms(1) session_invD(1) [OF assms(1,2)] assms(3)
    by (cases rule: session_handle_init_cases) auto
  then obtain body peer_pk counter where msg: "msg = SESSION_MSG_HANDSHAKE_INIT # body"
    "open_handshake sod s body = Some (peer_pk, counter)"
    "have_seen_handshake s1" "highest_handshake_counter_seen s1 = counter"
    by blast
  have "identity_step s s1"
    using handle_init_steps [OF assms(1,2,3)] by simp
  moreover have "identity_step s1 s2"
    using session_run_identity [OF assms(1) handle_init_inv [OF assms(1,2,3)], of es] assms(4) by simp
  ultimately have "static_keys s2 = static_keys s" "have_seen_handshake s2"
    "counter \<le> highest_handshake_counter_seen s2"
    using msg by (auto simp: identity_step_def)
  with msg show ?thesis
    by (simp add: session_handle_init_def open_handshake_def)
qed

theorem replayed_init_refused_witness:
  "\<exists>m rng1 s1 response.
     session_handle_init demo_sodium (fst (demo_session CRYPTO_ROLE_RESPONDER 2 1 7))
       (snd (demo_session CRYPTO_ROLE_RESPONDER 2 1 7)) m 57 = (rng1, s1, Some response) \<and>
     session_handle_init demo_sodium rng1 s1 m 57 = (rng1, s1, None)"
proof -
  obtain a1 m1 rb' b' m2 a2 where h:
    "session_handle_init demo_sodium (fst (demo_session CRYPTO_ROLE_RESPONDER 2 1 7))
       (snd (demo_session CRYPTO_ROLE_RESPONDER 2 1 7)) m1 57 = (rb', b', Some m2)"
    by (rule demo_handshake [of 3 7])
  have "session_inv demo_sodium (fst (demo_session CRYPTO_ROLE_RESPONDER 2 1 7),
      snd (demo_session CRYPTO_ROLE_RESPONDER 2 1 7))"
    using demo_ends(2) [of 7] by simp
  from replayed_init_refused [OF demo_sodium_ok this h, of "[]" rb' b' 57] h show ?thesis
    by (intro exI conjI) simp_all
qed

text \<open>C22. An initiator establishes a session only on a response that opens under its static
  keys, carries a 32-byte key and echoes the counter of its outstanding init; a stale response
  changes nothing, and once established every further response is refused.\<close>

theorem response_matches_outstanding_init:
  assumes "session_handle_response sod s msg = (s', ok)"
  shows "(ok \<longrightarrow> state s = SESSION_STATE_HANDSHAKE_PENDING \<and> state s' = SESSION_STATE_ESTABLISHED \<and>
      (\<exists>body peer_pk. msg = SESSION_MSG_HANDSHAKE_RESPONSE # body \<and>
         open_handshake sod s body = Some (peer_pk, pending_handshake_counter s)) \<and>
      (\<forall>m. session_handle_response sod s' m = (s', False))) \<and>
    (\<not> ok \<longrightarrow> s' = s)"
  using assms
proof (cases rule: session_handle_response_cases)
  case (established body peer_pk keys)
  then have "state s' = SESSION_STATE_ESTABLISHED" by simp
  moreover from this have "session_handle_response sod s' m = (s', False)" for m
    by (simp add: session_handle_response_def)
  ultimately show ?thesis
    using established by simp
qed simp

theorem response_matches_outstanding_init_witness:
  "\<exists>a1 a2 m. session_handle_response demo_sodium a1 m = (a2, True) \<and>
     session_handle_response demo_sodium a2 m = (a2, False)"
proof -
  obtain a1 m1 rb' b' m2 a2 where h: "session_handle_response demo_sodium a1 m2 = (a2, True)"
    by (rule demo_handshake [of 3 7])
  from response_matches_outstanding_init [OF h] h show ?thesis by blast
qed

text \<open>C20. A data packet is delivered at most once per epoch: after it has been opened, and
  whatever other calls and messages follow without a new ephemeral draw, the same bytes are
  never opened again.\<close>

theorem replayed_data_refused:
  assumes "sodium_ok sod" and "session_inv sod (rng, s)"
    and "session_open_data sod s msg n = (s1, Opened p)"
    and "session_run sod (rng, s1) es = (rng, s2)"
  shows "snd (session_open_data sod s2 msg n') \<noteq> Opened q"
proof -
  from assms(3) obtain body counter where o: "state s = SESSION_STATE_ESTABLISHED"
    "msg = SESSION_MSG_DATA # body" "crypto_open sod (rx (data_keys s)) body n = Some (p, counter)"
    "replay_check_and_mark s counter = (s1, True)"
    by (cases rule: session_open_data_cases) (auto split: if_splits)
  obtain S where "replay_inv s S" using assms(2) by auto
  then have S1: "replay_inv s1 (insert counter S)"
    using replay.check_inv o(4) by fastforce
  have "s1 = fst (replay_check_and_mark s counter)" using o(4) by simp
  then have s1: "state s1 = SESSION_STATE_ESTABLISHED" "data_keys s1 = data_keys s"
    using o(1) replay_check_session by simp_all
  have "session_inv sod (rng, s1)"
    using open_data_inv [OF assms(2,3)] .
  from session_run_same_epoch [OF assms(1) this, of "insert counter S" es] s1 S1 assms(4)
  obtain S' where s2: "state s2 = SESSION_STATE_ESTABLISHED" "data_keys s2 = data_keys s"
    "counter \<in> S'" "replay_inv s2 S'"
    by auto
  have "c = counter" if "crypto_open sod (rx (data_keys s)) body n' = Some (q', c)" for q' c
    using that o(3) by (auto simp: crypto_open_def Let_def split: if_splits option.splits)
  with s2 o(2) replay.replay_rejected [OF s2(4,3)] show ?thesis
    by (auto simp: session_open_data_def split: option.splits prod.splits)
qed

theorem replayed_data_refused_witness:
  "\<exists>m s s1. session_open_data demo_sodium s m 100 = (s1, Opened [1, 2, 3]) \<and>
     snd (session_open_data demo_sodium s1 m 100) \<noteq> Opened [1, 2, 3]"
proof -
  obtain a1 m1 rb' b' m2 a2 where h:
    "session_handle_init demo_sodium (fst (demo_session CRYPTO_ROLE_RESPONDER 2 1 7))
       (snd (demo_session CRYPTO_ROLE_RESPONDER 2 1 7)) m1 57 = (rb', b', Some m2)"
    "linked a2 b'" "replay_inv b' {}"
    by (rule demo_handshake [of 3 7])
  have inv: "session_inv demo_sodium (rb', b')"
    using handle_init_inv [OF demo_sodium_ok _ h(1)] demo_ends(2) [of 7] by simp
  obtain a3 m where seal: "session_seal_data demo_sodium a2 [1, 2, 3] 100 = (a3, Some m)"
    using h(2) crypto_seal_None [OF demo_aead_correct, of "tx (data_keys a2)" "tx_counter a2" "[1, 2, 3]" 99]
    by (auto simp: session_seal_data_def linked_def const_defs split: option.splits)
  obtain b3 where b3: "session_open_data demo_sodium b' m 100 = (b3, Opened [1, 2, 3])"
    using data_delivered [OF demo_sodium_ok _ _ seal h(3), of 100] h(2)
    by (auto simp: linked_def replay_admissible_def)
  from replayed_data_refused [OF demo_sodium_ok inv b3, of "[]" b3 100 "[1, 2, 3]"] b3
  show ?thesis by (auto simp del: session_inv.simps)
qed

text \<open>Data nonces are never reused: over any run shorter than the counter range, no two
  packets are sealed with the same counter under keys that come from the same ephemeral draw.\<close>

theorem data_nonces_unique:
  assumes "sodium_ok sod" and "session_init sod rng now r pk sk peer_pk = Some st"
    and "length es < 2 ^ 64"
  shows "distinct (data_nonces sod st es)"
proof -
  have "tx_counter (snd st) = 0"
    by (rule session_init_fields(5) [OF assms(2)])
  then show ?thesis
    using data_nonces_distinct [OF assms(1) session_init_inv [OF assms(2)]] assms(3) by simp
qed

theorem data_nonces_unique_witness:
  "distinct (data_nonces demo_sodium (demo_session CRYPTO_ROLE_INITIATOR 1 2 0)
     [SealData [1] 100, StartHandshake, SealData [2] 100])"
  by (rule data_nonces_unique [OF demo_sodium_ok demo_session_init]) simp_all

text \<open>Handshake nonces are never reused within one process: over any run that does not
  exhaust the 64-bit handshake counter, the handshake messages a session seals under its static
  transmit key (inits of an initiator, responses of a responder) carry pairwise distinct
  counters.\<close>

theorem handshake_nonces_unique:
  assumes "sodium_ok sod" and "session_init sod rng now r pk sk peer_pk = Some st"
    and "unat now + length es < 2 ^ 64 - 1"
  shows "distinct (handshake_nonces sod st es)"
proof -
  have "handshake_counter (snd st) = now"
    by (rule session_init_fields(4) [OF assms(2)])
  then show ?thesis
    using handshake_nonces_distinct [OF assms(1) session_init_inv [OF assms(2)]] assms(3) by simp
qed

theorem handshake_nonces_unique_witness:
  "distinct (handshake_nonces demo_sodium (demo_session CRYPTO_ROLE_INITIATOR 1 2 0)
     [BuildInit 57, BuildInit 57, StartHandshake, BuildInit 57])"
  by (rule handshake_nonces_unique [OF demo_sodium_ok demo_session_init]) simp_all

text \<open>C37. Every message fits the buffer it is built in: inits and responses are exactly
  \<open>SESSION_HANDSHAKE_MSG_LEN\<close> bytes, data messages are the payload plus
  \<open>SESSION_DATA_OVERHEAD\<close>, and never more than \<open>out_len\<close>; an opened payload fits its
  buffer too.\<close>

theorem session_messages_fit:
  assumes "sodium_ok sod" and "session_inv sod (rng, s)"
  shows "(\<forall>s' m. session_build_init sod s n = (s', Some m) \<longrightarrow>
      length m = SESSION_HANDSHAKE_MSG_LEN \<and> length m \<le> n) \<and>
    (\<forall>rng' s' m. session_handle_init sod rng s inp n = (rng', s', Some m) \<longrightarrow>
      length m = SESSION_HANDSHAKE_MSG_LEN \<and> length m \<le> n) \<and>
    (\<forall>s' m. session_seal_data sod s p n = (s', Some m) \<longrightarrow>
      length m = length p + SESSION_DATA_OVERHEAD \<and> length m \<le> n) \<and>
    (\<forall>s' q. session_open_data sod s inp n = (s', Opened q) \<longrightarrow>
      length inp = length q + SESSION_DATA_OVERHEAD \<and> length q \<le> n)"
proof (intro conjI allI impI)
  fix s' q
  assume "session_open_data sod s inp n = (s', Opened q)"
  then obtain body c where "inp = SESSION_MSG_DATA # body"
    "crypto_open sod (rx (data_keys s)) body n = Some (q, c)"
    by (cases rule: session_open_data_cases) (auto split: if_splits)
  with crypto_open_length [OF sodium_okD(1) [OF assms(1)] this(2)]
  show "length inp = length q + SESSION_DATA_OVERHEAD" "length q \<le> n"
    by (simp_all add: const_defs)
qed (use session_build_init_length [OF assms] session_handle_init_length [OF assms]
      session_seal_data_length [OF assms(1)] in \<open>fastforce+\<close>)

theorem session_messages_fit_witness:
  "\<exists>s' m. session_build_init demo_sodium (snd (demo_session CRYPTO_ROLE_INITIATOR 1 2 0)) 57 = (s', Some m) \<and>
     length m = 57"
proof -
  obtain a1 m1 where b: "session_build_init demo_sodium (snd (demo_session CRYPTO_ROLE_INITIATOR 1 2 0)) 57 = (a1, Some m1)"
    by (rule demo_handshake [of 0 7])
  have "session_inv demo_sodium (fst (demo_session CRYPTO_ROLE_INITIATOR 1 2 0), snd (demo_session CRYPTO_ROLE_INITIATOR 1 2 0))"
    using demo_ends(1) [of 0] by simp
  from session_messages_fit [OF demo_sodium_ok this, of 57 "[]" "[]"] b show ?thesis
    by (auto simp: const_defs)
qed



end
