(* ===== verification/Channel.thy ===== *)
theory Channel
  imports Session_Safety
begin

text \<open>
  The two ends of a relationship talking to each other over the wire: a handshake run through
  \<open>session_build_init\<close>, \<open>session_handle_init\<close> and \<open>session_handle_response\<close>
  (\<open>src/src/session.c\<close>), and a stream of packets sealed at one end and opened, in whatever
  order the network delivers them, at the other. \<open>seal_all\<close> and \<open>open_all\<close> are the loops a
  caller makes around \<open>session_seal_data\<close> and \<open>session_open_data\<close>.
\<close>

section \<open>Streams\<close>

fun seal_all :: "sodium \<Rightarrow> session \<Rightarrow> bytes list \<Rightarrow> nat \<Rightarrow> session \<times> bytes option list" where
  "seal_all sod s [] n = (s, [])"
| "seal_all sod s (p # ps) n =
     (case session_seal_data sod s p n of (s', m) \<Rightarrow>
        (case seal_all sod s' ps n of (s'', ms) \<Rightarrow> (s'', m # ms)))"

fun open_all :: "sodium \<Rightarrow> session \<Rightarrow> bytes list \<Rightarrow> nat \<Rightarrow> session \<times> open_result list" where
  "open_all sod s [] n = (s, [])"
| "open_all sod s (m # ms) n =
     (case session_open_data sod s m n of (s', r) \<Rightarrow>
        (case open_all sod s' ms n of (s'', rs) \<Rightarrow> (s'', r # rs)))"

text \<open>The message is the packet \<open>p\<close> sealed under \<open>key\<close> with counter \<open>c\<close>.\<close>

definition sealed_as :: "sodium \<Rightarrow> bytes \<Rightarrow> u64 \<Rightarrow> bytes \<Rightarrow> bytes \<Rightarrow> bool" where
  "sealed_as sod key c p m \<longleftrightarrow>
     (\<exists>k sealed. m = SESSION_MSG_DATA # sealed \<and> crypto_seal sod key c p k = Some sealed)"

lemma seal_one:
  assumes "aead_correct sod" and "state s = SESSION_STATE_ESTABLISHED"
    and "length p + SESSION_DATA_OVERHEAD \<le> n"
  obtains m where "session_seal_data sod s p n = (s\<lparr>tx_counter := tx_counter s + 1\<rparr>, Some m)"
    "sealed_as sod (tx (data_keys s)) (tx_counter s) p m"
proof -
  have "crypto_seal sod (tx (data_keys s)) (tx_counter s) p (n - 1) \<noteq> None"
    using assms(3) crypto_seal_None [OF assms(1)] by (simp add: const_defs)
  then obtain sealed where "crypto_seal sod (tx (data_keys s)) (tx_counter s) p (n - 1) = Some sealed" by blast
  with assms(2,3) show thesis
    by (intro that [of "SESSION_MSG_DATA # sealed"]) (auto simp: session_seal_data_def sealed_as_def)
qed

lemma seal_all_stream:
  assumes "aead_correct sod" and "state s = SESSION_STATE_ESTABLISHED"
    and "\<forall>p \<in> set ps. length p + SESSION_DATA_OVERHEAD \<le> n"
  obtains s' ms where "seal_all sod s ps n = (s', map Some ms)" "length ms = length ps"
    "\<And>i. i < length ps \<Longrightarrow> sealed_as sod (tx (data_keys s)) (tx_counter s + of_nat i) (ps ! i) (ms ! i)"
proof -
  have "\<exists>s' ms. seal_all sod s ps n = (s', map Some ms) \<and> length ms = length ps \<and>
      (\<forall>i < length ps. sealed_as sod (tx (data_keys s)) (tx_counter s + of_nat i) (ps ! i) (ms ! i))"
    using assms(2,3)
  proof (induction ps arbitrary: s)
    case (Cons p ps)
    obtain m where m: "session_seal_data sod s p n = (s\<lparr>tx_counter := tx_counter s + 1\<rparr>, Some m)"
      "sealed_as sod (tx (data_keys s)) (tx_counter s) p m"
      using seal_one [OF assms(1) Cons.prems(1)] Cons.prems(2) by auto
    obtain s' ms where IH: "seal_all sod (s\<lparr>tx_counter := tx_counter s + 1\<rparr>) ps n = (s', map Some ms)"
      "length ms = length ps"
      "\<forall>i < length ps. sealed_as sod (tx (data_keys s)) (tx_counter s + 1 + of_nat i) (ps ! i) (ms ! i)"
      using Cons.IH [of "s\<lparr>tx_counter := tx_counter s + 1\<rparr>"] Cons.prems by auto
    have "sealed_as sod (tx (data_keys s)) (tx_counter s + of_nat i) ((p # ps) ! i) ((m # ms) ! i)"
      if "i < length (p # ps)" for i
      using that m(2) IH(3) by (cases i) (auto simp: add.assoc)
    with m(1) IH(1,2) show ?case
      by (intro exI [of _ s'] exI [of _ "m # ms"]) simp
  qed simp
  with that show thesis by blast
qed

lemma open_one:
  assumes "aead_correct sod" and "state b = SESSION_STATE_ESTABLISHED"
    and "sealed_as sod (rx (data_keys b)) c p m" and "replay_inv b S" and "replay_admissible S c"
    and "length p \<le> n"
  obtains b' where "session_open_data sod b m n = (b', Opened p)" "replay_inv b' (insert c S)"
    "state b' = SESSION_STATE_ESTABLISHED" "data_keys b' = data_keys b"
proof -
  obtain k sealed where s: "m = SESSION_MSG_DATA # sealed" "crypto_seal sod (rx (data_keys b)) c p k = Some sealed"
    using assms(3) by (auto simp: sealed_as_def)
  have opens: "crypto_open sod (rx (data_keys b)) sealed n = Some (p, c)"
    using crypto_open_seal [OF assms(1) s(2), of n] assms(6) by simp
  obtain b' acc where r: "replay_check_and_mark b c = (b', acc)" by fastforce
  with replay_refines_core [OF assms(4) r] assms(5) have "acc" "replay_inv b' (insert c S)"
    by (auto split: if_splits)
  moreover have "b' = fst (replay_check_and_mark b c)" using r by simp
  then have "state b' = state b" "data_keys b' = data_keys b"
    using replay_check_session by simp_all
  ultimately show thesis
    using r opens assms(2) s(1) by (intro that [of b']) (simp_all add: session_open_data_def)
qed

lemma open_all_near:
  assumes aead: "aead_correct sod"
    and "state b = SESSION_STATE_ESTABLISHED" and "replay_inv b S"
    and "\<forall>i \<in> set order. sealed_as sod (rx (data_keys b)) (cs i) (ps i) (ms i) \<and> length (ps i) \<le> n"
    and "distinct (map cs order)" and "set (map cs order) \<inter> S = {}"
    and "\<forall>c \<in> S \<union> set (map cs order). \<forall>d \<in> S \<union> set (map cs order).
       unat c - unat d < SESSION_REPLAY_WINDOW_BITS"
  shows "snd (open_all sod b (map ms order) n) = map (\<lambda>i. Opened (ps i)) order"
  using assms(2-)
proof (induction order arbitrary: b S)
  case (Cons i js)
  have "replay_admissible S (cs i)"
    by (rule replay_admissible_near) (use Cons.prems in auto)
  then obtain b' where b': "session_open_data sod b (ms i) n = (b', Opened (ps i))"
    "replay_inv b' (insert (cs i) S)" "state b' = SESSION_STATE_ESTABLISHED" "data_keys b' = data_keys b"
    using open_one [OF aead Cons.prems(1) _ Cons.prems(2), of "cs i" "ps i" "ms i" n] Cons.prems(3) by auto
  have "snd (open_all sod b' (map ms js) n) = map (\<lambda>i. Opened (ps i)) js"
    by (rule Cons.IH [OF b'(3,2)]) (use Cons.prems b'(4) in auto)
  then show ?case using b'(1) by (simp add: split_beta)
qed simp

section \<open>Properties\<close>

text \<open>C7. A handshake between the two ends of a relationship succeeds: an initiator and a
  responder initialised with each other's public keys, whatever calls they have made and whatever
  messages they have received since, agree on data keys as soon as the initiator, in its pending
  state and with a counter ahead of what the responder has accepted, sends an init that is
  delivered and whose answer is delivered. Both ends are then established, each transmit key is
  the other's receive key, and the replay windows are empty.\<close>

theorem handshake_agreement:
  assumes "sodium_ok sod" "kx_correct sod" "kx_draws_correct sod"
    and "session_inv sod (ra, a)" "session_inv sod (rb, b)" "paired a b"
    and "state a = SESSION_STATE_HANDSHAKE_PENDING"
    and "have_seen_handshake b \<longrightarrow> highest_handshake_counter_seen b < handshake_counter a"
    and "SESSION_HANDSHAKE_MSG_LEN \<le> n" "SESSION_HANDSHAKE_MSG_LEN \<le> n'"
  shows "\<exists>a1 m1 rb' b' m2 a2.
    session_build_init sod a n = (a1, Some m1) \<and>
    session_handle_init sod rb b m1 n' = (rb', b', Some m2) \<and>
    session_handle_response sod a1 m2 = (a2, True) \<and>
    linked a2 b' \<and> replay_inv a2 {} \<and> replay_inv b' {}"
  by (rule handshake_completes [OF assms]) blast

theorem handshake_agreement_witness:
  "\<exists>a1 m1 rb' b' m2 a2.
    session_build_init demo_sodium (snd (demo_session CRYPTO_ROLE_INITIATOR 1 2 3)) 57 = (a1, Some m1) \<and>
    session_handle_init demo_sodium (fst (demo_session CRYPTO_ROLE_RESPONDER 2 1 7))
      (snd (demo_session CRYPTO_ROLE_RESPONDER 2 1 7)) m1 57 = (rb', b', Some m2) \<and>
    session_handle_response demo_sodium a1 m2 = (a2, True) \<and> linked a2 b'"
proof -
  let ?a = "demo_session CRYPTO_ROLE_INITIATOR 1 2 3" and ?b = "demo_session CRYPTO_ROLE_RESPONDER 2 1 7"
  have "session_inv demo_sodium (fst ?a, snd ?a)" "session_inv demo_sodium (fst ?b, snd ?b)"
    using demo_ends(1) [of 3] demo_ends(2) [of 7] by (simp_all del: session_inv.simps)
  from handshake_agreement [OF demo_sodium_ok demo_kx_correct demo_kx_draws_correct this
      demo_ends(3,4), of 57 57]
  show ?thesis using demo_ends(5) [of 7] by (fastforce simp: const_defs)
qed



end
