(* ===== verification/Process.thy ===== *)
theory Process
  imports Session_Safety
begin

text \<open>
  A process that holds one session per peer and one key generator, and whose only steps are calls of
  the session interface on one of its sessions. What it emits are the messages and plaintexts these
  calls return. This is the abstract machine the daemon implements (theory Daemon_Refinement); its
  guarantees are those of the single sessions (theory Session_Safety), with the draws of the other
  sessions in between: over any run, no nonce is used twice under one key, no data packet is accepted
  twice under one key, and no handshake message repeats a counter.
\<close>

section \<open>The machine\<close>

type_synonym process = "nat \<times> session list"

datatype emission = Datagram bytes | Packet bytes

text \<open>What one call hands to its caller for sending or writing; the empty plaintext is the keepalive.\<close>

fun call_output :: "sodium \<Rightarrow> nat \<times> session \<Rightarrow> session_event \<Rightarrow> emission list" where
  "call_output sod (r, s) StartHandshake = []"
| "call_output sod (r, s) (BuildInit n) =
     (case session_build_init sod s n of (_, None) \<Rightarrow> [] | (_, Some m) \<Rightarrow> [Datagram m])"
| "call_output sod (r, s) (HandleInit m n) =
     (case session_handle_init sod r s m n of (_, _, None) \<Rightarrow> [] | (_, _, Some m') \<Rightarrow> [Datagram m'])"
| "call_output sod (r, s) (HandleResponse m) = []"
| "call_output sod (r, s) (SealData p n) =
     (case session_seal_data sod s p n of (_, None) \<Rightarrow> [] | (_, Some m) \<Rightarrow> [Datagram m])"
| "call_output sod (r, s) (OpenData m n) =
     (case session_open_data sod s m n of (_, Opened p) \<Rightarrow> if p = [] then [] else [Packet p] | _ \<Rightarrow> [])"

text \<open>A call on session \<open>i\<close>.\<close>

fun proc_step :: "sodium \<Rightarrow> process \<Rightarrow> nat \<times> session_event \<Rightarrow> process" where
  "proc_step sod (r, ss) (i, e) =
     (if i < length ss then (case session_step sod (r, ss ! i) e of (r', s') \<Rightarrow> (r', ss[i := s'])) else (r, ss))"

fun proc_output :: "sodium \<Rightarrow> process \<Rightarrow> nat \<times> session_event \<Rightarrow> emission list" where
  "proc_output sod (r, ss) (i, e) = (if i < length ss then call_output sod (r, ss ! i) e else [])"

abbreviation proc_run :: "sodium \<Rightarrow> process \<Rightarrow> (nat \<times> session_event) list \<Rightarrow> process" where
  "proc_run sod \<equiv> run (proc_step sod)"

fun proc_outputs :: "sodium \<Rightarrow> process \<Rightarrow> (nat \<times> session_event) list \<Rightarrow> emission list" where
  "proc_outputs sod st [] = []"
| "proc_outputs sod st (x # xs) = proc_output sod st x @ proc_outputs sod (proc_step sod st x) xs"

lemma proc_outputs_append:
  "proc_outputs sod st (xs @ ys) = proc_outputs sod st xs @ proc_outputs sod (proc_run sod st xs) ys"
  by (induction xs arbitrary: st) simp_all

lemma proc_run_length: "length (snd (proc_run sod st xs)) = length (snd st)"
proof (induction xs arbitrary: st)
  case (Cons x xs)
  have "length (snd (proc_step sod st x)) = length (snd st)"
    by (cases st; cases x) (simp split: prod.split)
  with Cons.IH [of "proc_step sod st x"] show ?case by simp
qed simp

text \<open>More sessions before or after the ones that are called.\<close>

definition proc_shift :: "nat \<Rightarrow> (nat \<times> session_event) list \<Rightarrow> (nat \<times> session_event) list" where
  "proc_shift k xs = map (apfst ((+) k)) xs"

lemma proc_run_frame:
  assumes "\<forall>x \<in> set xs. fst x < length ss" and "proc_run sod (r, ss) xs = (r', ss')"
  shows "proc_run sod (r, as @ ss @ bs) (proc_shift (length as) xs) = (r', as @ ss' @ bs) \<and>
    proc_outputs sod (r, as @ ss @ bs) (proc_shift (length as) xs) = proc_outputs sod (r, ss) xs"
  using assms
proof (induction xs arbitrary: r ss)
  case (Cons x xs)
  obtain i e where x: "x = (i, e)" by fastforce
  obtain r1 s1 where s1: "session_step sod (r, ss ! i) e = (r1, s1)" by fastforce
  have i: "i < length ss" using Cons.prems(1) x by simp
  have IH: "proc_run sod (r1, as @ ss[i := s1] @ bs) (proc_shift (length as) xs) = (r', as @ ss' @ bs) \<and>
      proc_outputs sod (r1, as @ ss[i := s1] @ bs) (proc_shift (length as) xs) = proc_outputs sod (r1, ss[i := s1]) xs"
    by (rule Cons.IH) (use Cons.prems x s1 i in simp_all)
  with x s1 i show ?case
    by (simp add: proc_shift_def nth_append list_update_append)
qed (simp add: proc_shift_def)

section \<open>Draws and keys\<close>

text \<open>The ephemeral key pair of the session is draw \<open>i\<close> of the process, and so are its data keys once it
  is established.\<close>

definition keyed :: "sodium \<Rightarrow> session \<Rightarrow> nat \<Rightarrow> bool" where
  "keyed sod s i \<longleftrightarrow> local_eph_pk s = fst (kx_keypair sod i) \<and>
     (state s = SESSION_STATE_HANDSHAKE_PENDING \<longrightarrow> local_eph_sk s = snd (kx_keypair sod i)) \<and>
     (state s = SESSION_STATE_ESTABLISHED \<longrightarrow>
        (\<exists>peer_pk. crypto_derive_session_keys sod (role s)
           (fst (kx_keypair sod i)) (snd (kx_keypair sod i)) peer_pk = Some (data_keys s)))"

lemma session_inv_keyed: "session_inv sod (r, s) \<Longrightarrow> \<exists>i < r. keyed sod s i"
  by (auto simp: keyed_def)

lemma keyed_start: "session_start_handshake sod r s = (r', s') \<Longrightarrow> r' = Suc r \<and> keyed sod s' r \<and> tx_counter s' = 0"
  using start_handshake_simps [of sod r s] by (simp add: keyed_def)

lemma keyed_establish:
  assumes "keyed sod s i" and "state s = SESSION_STATE_HANDSHAKE_PENDING"
    and "crypto_derive_session_keys sod (role s) (local_eph_pk s) (local_eph_sk s) peer_pk = Some keys"
    and "s' = s\<lparr>data_keys := keys, local_eph_sk := e, have_seen_handshake := h,
      highest_handshake_counter_seen := c, state := SESSION_STATE_ESTABLISHED\<rparr>"
  shows "keyed sod s' i"
  using assms by (auto simp: keyed_def)

lemma keyed_cong:
  assumes "local_eph_pk s' = local_eph_pk s" and "local_eph_sk s' = local_eph_sk s" and "state s' = state s"
    and "role s' = role s" and "data_keys s' = data_keys s"
  shows "keyed sod s' i \<longleftrightarrow> keyed sod s i"
  using assms by (simp add: keyed_def)

text \<open>One call: a new draw, or the same draw and at most one more packet sealed, which is returned.\<close>

lemma handle_init_keyed:
  assumes ok: "sodium_ok sod" and inv: "session_inv sod (r, s)"
    and eq: "session_handle_init sod r s inp n = (r', s', m)"
  shows "(r' = Suc r \<and> keyed sod s' r \<and> tx_counter s' = 0) \<or>
    (r' = r \<and> (\<forall>k. keyed sod s k \<longrightarrow> keyed sod s' k) \<and> tx_counter s' = tx_counter s)"
  using ok session_invD(1) [OF ok inv] eq
proof (cases rule: session_handle_init_cases)
  case (degenerate body peer_pk counter s1)
  then show ?thesis using keyed_start [of sod r s r' s1] by (auto split: if_splits)
next
  case (established body peer_pk counter s1 keys sealed)
  have s1: "(r' = Suc r \<and> keyed sod s1 r \<and> tx_counter s1 = 0) \<or> (r' = r \<and> s1 = s)"
    using established(6) keyed_start [of sod r s r' s1] by (auto split: if_splits)
  have "state s1 = SESSION_STATE_HANDSHAKE_PENDING"
    using restart_inv [OF inv established(6) [symmetric]] by blast
  from keyed_establish [OF _ this established(7) established(9)] s1 established(9) show ?thesis by auto
qed simp

lemma session_step_keyed:
  assumes ok: "sodium_ok sod" and inv: "session_inv sod (r, s)" and step: "session_step sod (r, s) e = (r', s')"
  shows "(r' = Suc r \<and> keyed sod s' r \<and> tx_counter s' = 0) \<or>
    (r' = r \<and> (\<forall>k. keyed sod s k \<longrightarrow> keyed sod s' k) \<and>
     (tx_counter s' = tx_counter s \<or> tx_counter s' = tx_counter s + 1 \<and> length (call_output sod (r, s) e) = 1))"
proof (cases e)
  case StartHandshake
  with step keyed_start [of sod r s r' s'] show ?thesis by simp
next
  case (BuildInit n)
  obtain s1 m where b: "session_build_init sod s n = (s1, m)" by fastforce
  then have "r' = r \<and> (\<forall>k. keyed sod s k \<longrightarrow> keyed sod s1 k) \<and> tx_counter s1 = tx_counter s"
    using step BuildInit by (cases rule: session_build_init_cases) (auto simp: keyed_def)
  with step BuildInit b show ?thesis by auto
next
  case (HandleInit m n)
  obtain r1 s1 m' where h: "session_handle_init sod r s m n = (r1, s1, m')"
    by (cases "session_handle_init sod r s m n") auto
  with step HandleInit have "r1 = r'" "s1 = s'" by simp_all
  with handle_init_keyed [OF ok inv h] show ?thesis by blast
next
  case (HandleResponse m)
  obtain s1 b where h: "session_handle_response sod s m = (s1, b)" by fastforce
  then have "(\<forall>k. keyed sod s k \<longrightarrow> keyed sod s1 k) \<and> tx_counter s1 = tx_counter s"
    by (cases rule: session_handle_response_cases) (auto simp: keyed_def)
  with step HandleResponse h show ?thesis by auto
next
  case (SealData p n)
  obtain s1 m where b: "session_seal_data sod s p n = (s1, m)" by fastforce
  then have "(\<forall>k. keyed sod s k \<longrightarrow> keyed sod s1 k) \<and>
      (tx_counter s1 = tx_counter s \<or> tx_counter s1 = tx_counter s + 1 \<and> m \<noteq> None)"
    by (cases rule: session_seal_data_cases) (auto simp: keyed_def)
  with step SealData b show ?thesis by auto
next
  case (OpenData m n)
  obtain s1 x where b: "session_open_data sod s m n = (s1, x)" by fastforce
  then have "(\<forall>k. keyed sod s k \<longrightarrow> keyed sod s1 k) \<and> tx_counter s1 = tx_counter s"
  proof (cases rule: session_open_data_cases)
    case (opened body out counter b)
    then have "s1 = fst (replay_check_and_mark s counter)" by simp
    with replay_check_session [of s counter] show ?thesis by (simp add: keyed_def)
  qed simp
  with step OpenData b show ?thesis by auto
qed

section \<open>Progress of one session\<close>

text \<open>Under the same draw: an established session keeps its keys and what it has received, and with
  \<open>n\<close> emissions its transmit counter has not gone back.\<close>

definition same_epoch :: "sodium \<Rightarrow> nat \<Rightarrow> session \<Rightarrow> session \<Rightarrow> bool" where
  "same_epoch sod n s s' \<longleftrightarrow> (\<forall>k. keyed sod s k \<longrightarrow> keyed sod s' k) \<and>
     (state s = SESSION_STATE_ESTABLISHED \<longrightarrow> state s' = SESSION_STATE_ESTABLISHED \<and>
        data_keys s' = data_keys s \<and> (\<forall>S. replay_inv s S \<longrightarrow> (\<exists>S'. S \<subseteq> S' \<and> replay_inv s' S'))) \<and>
     (unat (tx_counter s) + n < 2 ^ 64 \<longrightarrow> tx_counter s \<le> tx_counter s')"

text \<open>The handshake counters still to come only become fewer, unless the counter wraps around.\<close>

definition hs_progress :: "nat \<Rightarrow> session \<Rightarrow> session \<Rightarrow> bool" where
  "hs_progress n s s' \<longleftrightarrow> unat (handshake_counter s') \<le> unat (handshake_counter s) + n \<and>
     (unat (handshake_counter s) + n < 2 ^ 64 - 1 \<longrightarrow> (\<forall>c. hs_fresh s' c \<longrightarrow> hs_fresh s c))"

text \<open>From \<open>(r, s)\<close> to \<open>(r', s')\<close> with at most \<open>n\<close> emissions: under a draw made since, or the same one.\<close>

definition progress :: "sodium \<Rightarrow> nat \<Rightarrow> nat \<times> session \<Rightarrow> nat \<times> session \<Rightarrow> bool" where
  "progress sod n st st' \<longleftrightarrow> fst st \<le> fst st' \<and> identity_step (snd st) (snd st') \<and>
     hs_progress n (snd st) (snd st') \<and> unat (tx_counter (snd st')) \<le> unat (tx_counter (snd st)) + n \<and>
     ((\<exists>k. fst st \<le> k \<and> k < fst st' \<and> keyed sod (snd st') k) \<or> same_epoch sod n (snd st) (snd st'))"

lemma same_epoch_refl: "same_epoch sod n s s"
  by (auto simp: same_epoch_def)

lemma same_epoch_trans:
  assumes "same_epoch sod n s s'" and "same_epoch sod n' s' s''"
    and "unat (tx_counter s') \<le> unat (tx_counter s) + n"
  shows "same_epoch sod (n + n') s s''"
proof -
  have "\<exists>S'. S \<subseteq> S' \<and> replay_inv s'' S'" if "state s = SESSION_STATE_ESTABLISHED" "replay_inv s S" for S
    using assms(1,2) that unfolding same_epoch_def by (meson order_trans)
  moreover have "tx_counter s \<le> tx_counter s''" if "unat (tx_counter s) + (n + n') < 2 ^ 64"
  proof -
    have "tx_counter s \<le> tx_counter s'" "tx_counter s' \<le> tx_counter s''"
      using assms that by (simp_all add: same_epoch_def)
    then show ?thesis by (rule order_trans)
  qed
  ultimately show ?thesis using assms(1,2) by (auto simp: same_epoch_def)
qed

lemma hs_progress_trans:
  assumes "hs_progress n s s'" and "hs_progress n' s' s''"
  shows "hs_progress (n + n') s s''"
  using assms unfolding hs_progress_def by fastforce

lemma progress_refl: "r \<le> r' \<Longrightarrow> progress sod n (r, s) (r', s)"
  by (simp add: progress_def same_epoch_refl hs_progress_def)

lemma progress_trans:
  assumes "progress sod n st st'" and "progress sod n' st' st''"
  shows "progress sod (n + n') st st''"
proof -
  have le: "fst st \<le> fst st'" "fst st' \<le> fst st''" using assms by (auto simp: progress_def)
  have frame: "identity_step (snd st) (snd st'')" "hs_progress (n + n') (snd st) (snd st'')"
    using assms by (auto simp: progress_def intro: identity_step_trans hs_progress_trans)
  have tx: "unat (tx_counter (snd st')) \<le> unat (tx_counter (snd st)) + n"
    "unat (tx_counter (snd st'')) \<le> unat (tx_counter (snd st')) + n'"
    using assms by (auto simp: progress_def)
  consider (new) k where "fst st' \<le> k" "k < fst st''" "keyed sod (snd st'') k"
    | (old) k where "same_epoch sod n' (snd st') (snd st'')" "fst st \<le> k" "k < fst st'" "keyed sod (snd st') k"
    | (same) "same_epoch sod n (snd st) (snd st')" "same_epoch sod n' (snd st') (snd st'')"
    using assms unfolding progress_def by blast
  then have "(\<exists>k. fst st \<le> k \<and> k < fst st'' \<and> keyed sod (snd st'') k) \<or> same_epoch sod (n + n') (snd st) (snd st'')"
  proof cases
    case new
    with le show ?thesis by (meson order_trans)
  next
    case old
    then have "keyed sod (snd st'') k" by (simp add: same_epoch_def)
    with old le show ?thesis by (meson order_less_le_trans)
  next
    case same
    with same_epoch_trans tx(1) show ?thesis by blast
  qed
  with le frame tx show ?thesis by (simp add: progress_def)
qed

lemma session_step_hs_progress:
  assumes ok: "sodium_ok sod" and inv: "session_inv sod (r, s)"
  shows "hs_progress (length (call_output sod (r, s) e)) s (snd (session_step sod (r, s) e))"
proof -
  have "handshake_counter (snd (session_step sod (r, s) e)) = handshake_counter s \<or>
      handshake_counter (snd (session_step sod (r, s) e)) = handshake_counter s + 1 \<and>
        length (call_output sod (r, s) e) = 1"
  proof (cases "\<exists>n. e = BuildInit n")
    case True
    then obtain n where e: "e = BuildInit n" by blast
    obtain s' m where b: "session_build_init sod s n = (s', m)" by fastforce
    then have "handshake_counter s' = handshake_counter s \<or> handshake_counter s' = handshake_counter s + 1 \<and> m \<noteq> None"
      by (cases rule: session_build_init_cases) simp_all
    with e b show ?thesis by auto
  next
    case False
    then show ?thesis using handshake_counter_kept [OF ok inv, of e] by auto
  qed
  then have "unat (handshake_counter (snd (session_step sod (r, s) e))) \<le>
      unat (handshake_counter s) + length (call_output sod (r, s) e)"
    by (auto simp: unat_plus_if' split: if_splits)
  then show ?thesis
    using hs_fresh_mono [OF ok inv, of e] by (simp add: hs_progress_def del: session_step.simps session_inv.simps)
qed

lemma session_step_progress:
  assumes ok: "sodium_ok sod" and inv: "session_inv sod (r, s)"
  shows "progress sod (length (call_output sod (r, s) e)) (r, s) (session_step sod (r, s) e)"
proof -
  obtain r' s' where step: "session_step sod (r, s) e = (r', s')" by fastforce
  note steps = session_step_steps [OF ok inv, of e, unfolded step]
    session_step_hs_progress [OF ok inv, of e, unfolded step]
  let ?n = "length (call_output sod (r, s) e)"
  consider (new) "r' = Suc r" "keyed sod s' r" "tx_counter s' = 0"
    | (same) "r' = r" "\<forall>k. keyed sod s k \<longrightarrow> keyed sod s' k"
        "tx_counter s' = tx_counter s \<or> tx_counter s' = tx_counter s + 1 \<and> ?n = 1"
    using session_step_keyed [OF ok inv step] by blast
  then show ?thesis
  proof cases
    case new
    with steps step show ?thesis by (auto simp: progress_def)
  next
    case same
    have "unat (tx_counter s') \<le> unat (tx_counter s) + ?n"
      "unat (tx_counter s) + ?n < 2 ^ 64 \<Longrightarrow> tx_counter s \<le> tx_counter s'"
      using same(3) by (auto simp: unat_plus_if' word_le_nat_alt split: if_splits)
    moreover have "state s = SESSION_STATE_ESTABLISHED \<longrightarrow> state s' = SESSION_STATE_ESTABLISHED \<and>
        data_keys s' = data_keys s \<and> (\<forall>S. replay_inv s S \<longrightarrow> (\<exists>S'. S \<subseteq> S' \<and> replay_inv s' S'))"
      using steps same(1) by (auto simp: epoch_step_def)
    ultimately show ?thesis using steps same(1,2) step by (simp add: progress_def same_epoch_def)
  qed
qed

section \<open>Runs of the process\<close>

definition proc_inv :: "sodium \<Rightarrow> process \<Rightarrow> bool" where
  "proc_inv sod st \<longleftrightarrow> (\<forall>s \<in> set (snd st). session_inv sod (fst st, s))"

lemma session_inv_more_draws: "session_inv sod (r, s) \<Longrightarrow> r \<le> r' \<Longrightarrow> session_inv sod (r', s)"
  by (auto dest: order.strict_trans2)

lemma proc_step_progress:
  assumes ok: "sodium_ok sod" and inv: "proc_inv sod st" and j: "j < length (snd st)"
  shows "progress sod (length (proc_output sod st x)) (fst st, snd st ! j)
      (fst (proc_step sod st x), snd (proc_step sod st x) ! j)"
    and "session_inv sod (fst (proc_step sod st x), snd (proc_step sod st x) ! j)"
proof -
  obtain r ss i e where st: "st = (r, ss)" "x = (i, e)" by (cases st; cases x)
  have invj: "session_inv sod (r, ss ! k)" if "k < length ss" for k
    using inv that by (simp add: proc_inv_def st del: session_inv.simps)
  show "progress sod (length (proc_output sod st x)) (fst st, snd st ! j)
      (fst (proc_step sod st x), snd (proc_step sod st x) ! j)"
    "session_inv sod (fst (proc_step sod st x), snd (proc_step sod st x) ! j)"
  proof (atomize (full), cases "i < length ss")
    case False
    with st invj j show "progress sod (length (proc_output sod st x)) (fst st, snd st ! j)
        (fst (proc_step sod st x), snd (proc_step sod st x) ! j) \<and>
      session_inv sod (fst (proc_step sod st x), snd (proc_step sod st x) ! j)"
      by (simp add: progress_refl del: session_inv.simps)
  next
    case True
    obtain r' s' where step: "session_step sod (r, ss ! i) e = (r', s')" by fastforce
    have p: "progress sod (length (call_output sod (r, ss ! i) e)) (r, ss ! i) (r', s')"
      using session_step_progress [OF ok invj [OF True], of e] step by simp
    have s': "session_inv sod (r', s')"
      using session_step_inv [OF ok invj [OF True], of e] step by simp
    have le: "r \<le> r'" using p by (simp add: progress_def)
    show "progress sod (length (proc_output sod st x)) (fst st, snd st ! j)
        (fst (proc_step sod st x), snd (proc_step sod st x) ! j) \<and>
      session_inv sod (fst (proc_step sod st x), snd (proc_step sod st x) ! j)"
      using True st step p s' le j invj session_inv_more_draws [OF _ le]
      by (cases "i = j") (simp_all add: progress_refl del: session_inv.simps)
  qed
qed

lemma proc_step_length: "length (snd (proc_step sod st x)) = length (snd st)"
  using proc_run_length [of sod st "[x]"] by simp

interpretation proc_sys: invariant_system "proc_step sod" "\<lambda>st. sodium_ok sod \<longrightarrow> proc_inv sod st" for sod
proof (unfold_locales, intro impI)
  fix st x assume "sodium_ok sod \<longrightarrow> proc_inv sod st" and ok: "sodium_ok sod"
  then have "proc_inv sod st" by blast
  from proc_step_progress(2) [OF ok this, of _ x] show "proc_inv sod (proc_step sod st x)"
    unfolding proc_inv_def set_conv_nth
    using proc_step_length [of sod st x] by (auto simp del: session_inv.simps)
qed

lemma proc_run_progress:
  assumes ok: "sodium_ok sod" and "proc_inv sod st" and "j < length (snd st)"
  shows "progress sod (length (proc_outputs sod st xs)) (fst st, snd st ! j)
      (fst (proc_run sod st xs), snd (proc_run sod st xs) ! j)"
  using assms(2,3)
proof (induction xs arbitrary: st)
  case (Cons x xs)
  have "proc_inv sod (proc_step sod st x)"
    using proc_sys.step_inv [of sod st x] ok Cons.prems(1) by blast
  from Cons.IH [OF this] Cons.prems(2)
  have "progress sod (length (proc_outputs sod (proc_step sod st x) xs))
      (fst (proc_step sod st x), snd (proc_step sod st x) ! j)
      (fst (proc_run sod st (x # xs)), snd (proc_run sod st (x # xs)) ! j)"
    by (simp add: proc_step_length)
  from progress_trans [OF proc_step_progress(1) [OF ok Cons.prems, of x] this] show ?case by simp
qed (simp add: progress_refl)

text \<open>The state before call \<open>a\<close> of a run, and the part of the run between two calls.\<close>

definition before :: "sodium \<Rightarrow> process \<Rightarrow> (nat \<times> session_event) list \<Rightarrow> nat \<Rightarrow> process" where
  "before sod st xs a = proc_run sod st (take a xs)"

lemma before_Suc: "a < length xs \<Longrightarrow> before sod st xs (Suc a) = proc_step sod (before sod st xs a) (xs ! a)"
  by (simp add: before_def take_Suc_conv_app_nth run_append)

lemma before_0 [simp]: "before sod st xs 0 = st"
  by (simp add: before_def)

lemma before_inv:
  assumes "sodium_ok sod" and "proc_inv sod st"
  shows "proc_inv sod (before sod st xs a)"
  unfolding before_def using proc_sys.run_inv [of sod st "take a xs"] assms by blast

lemma before_length [simp]: "length (snd (before sod st xs a)) = length (snd st)"
  by (simp add: before_def proc_run_length)

text \<open>How much has been emitted before call \<open>a\<close>.\<close>

definition emitted_before :: "sodium \<Rightarrow> process \<Rightarrow> (nat \<times> session_event) list \<Rightarrow> nat \<Rightarrow> nat" where
  "emitted_before sod st xs a = length (proc_outputs sod st (take a xs))"

lemma emitted_before_0 [simp]: "emitted_before sod st xs 0 = 0"
  by (simp add: emitted_before_def)

lemma emitted_before_Suc: "a < length xs \<Longrightarrow>
  emitted_before sod st xs (Suc a) = emitted_before sod st xs a + length (proc_output sod (before sod st xs a) (xs ! a))"
  by (simp add: emitted_before_def before_def take_Suc_conv_app_nth proc_outputs_append)

lemma take_between: "a \<le> b \<Longrightarrow> take b xs = take a xs @ drop a (take b xs)"
  by (metis append_take_drop_id min.absorb1 take_take)

lemma emitted_before_mono: "a \<le> b \<Longrightarrow> emitted_before sod st xs a \<le> emitted_before sod st xs b"
  by (subst take_between [of a b xs, THEN arg_cong [where f = "\<lambda>ys. length (proc_outputs sod st ys)"],
        folded emitted_before_def]) (simp_all add: proc_outputs_append emitted_before_def)

lemma emitted_before_total: "emitted_before sod st xs a \<le> length (proc_outputs sod st xs)"
  using emitted_before_mono [of a "max a (length xs)" sod st xs] by (simp add: emitted_before_def)

lemma before_progress:
  assumes "sodium_ok sod" and "proc_inv sod st" and "j < length (snd st)" and "a \<le> b"
  shows "progress sod (emitted_before sod st xs b - emitted_before sod st xs a)
    (fst (before sod st xs a), snd (before sod st xs a) ! j) (fst (before sod st xs b), snd (before sod st xs b) ! j)"
proof -
  define ys where "ys = drop a (take b xs)"
  have take: "take b xs = take a xs @ ys" unfolding ys_def by (rule take_between [OF assms(4)])
  then have "before sod st xs b = proc_run sod (before sod st xs a) ys"
    "emitted_before sod st xs b - emitted_before sod st xs a = length (proc_outputs sod (before sod st xs a) ys)"
    by (simp_all add: before_def emitted_before_def run_append proc_outputs_append)
  with proc_run_progress [OF assms(1) before_inv [OF assms(1,2), of xs a], of j ys] assms(3) show ?thesis by simp
qed

section \<open>Guarantees of runs\<close>

text \<open>Call \<open>a\<close> of a run, on session \<open>i\<close> in state \<open>s\<close>: it seals the data message \<open>m\<close>; it accepts the data message
  \<open>m\<close>; it builds the handshake message \<open>m\<close>.\<close>

definition call_at ::
  "sodium \<Rightarrow> process \<Rightarrow> (nat \<times> session_event) list \<Rightarrow> nat \<Rightarrow> nat \<Rightarrow> nat \<times> session \<Rightarrow> session_event \<Rightarrow> bool" where
  "call_at sod st xs a i c e \<longleftrightarrow> a < length xs \<and> xs ! a = (i, e) \<and> i < length (snd st) \<and>
     c = (fst (before sod st xs a), snd (before sod st xs a) ! i)"

fun seals :: "sodium \<Rightarrow> nat \<times> session \<Rightarrow> session_event \<Rightarrow> bytes \<Rightarrow> bool" where
  "seals sod (r, s) (SealData p n) m \<longleftrightarrow> snd (session_seal_data sod s p n) = Some m"
| "seals sod (r, s) _ m \<longleftrightarrow> False"

fun accepts :: "sodium \<Rightarrow> nat \<times> session \<Rightarrow> session_event \<Rightarrow> bytes \<Rightarrow> bool" where
  "accepts sod (r, s) (OpenData inp n) m \<longleftrightarrow> inp = m \<and> (\<exists>p. snd (session_open_data sod s inp n) = Opened p)"
| "accepts sod (r, s) _ m \<longleftrightarrow> False"

fun shakes :: "sodium \<Rightarrow> nat \<times> session \<Rightarrow> session_event \<Rightarrow> bytes \<Rightarrow> bool" where
  "shakes sod (r, s) (BuildInit n) m \<longleftrightarrow> snd (session_build_init sod s n) = Some m"
| "shakes sod (r, s) (HandleInit inp n) m \<longleftrightarrow> snd (snd (session_handle_init sod r s inp n)) = Some m"
| "shakes sod (r, s) _ m \<longleftrightarrow> False"

text \<open>The data keys of the two sessions come from different draws, the second from a later one.\<close>

definition rekeyed :: "sodium \<Rightarrow> session \<Rightarrow> session \<Rightarrow> bool" where
  "rekeyed sod s s' \<longleftrightarrow> (\<exists>k k'. k < k' \<and> keyed sod s k \<and> keyed sod s' k')"

lemma call_at_next:
  assumes ok: "sodium_ok sod" and inv: "proc_inv sod st" and c: "call_at sod st xs a i (r, s) e"
    and step: "session_step sod (r, s) e = (r', s')"
  shows "before sod st xs (Suc a) = (r', (snd (before sod st xs a))[i := s']) \<and> session_inv sod (r, s)"
proof -
  from c have a: "a < length xs" "xs ! a = (i, e)" "i < length (snd st)" "r = fst (before sod st xs a)"
    "s = snd (before sod st xs a) ! i"
    by (simp_all add: call_at_def)
  have "session_inv sod (r, s)"
    using before_inv [OF ok inv, of xs a] a(3-5) by (simp add: proc_inv_def del: session_inv.simps)
  with a step before_Suc [OF a(1), of sod st] show ?thesis
    by (cases "before sod st xs a") (simp del: session_inv.simps add: before_length [of sod st xs a, symmetric])
qed

text \<open>Two calls on one session: what the first leaves behind makes progress to where the second starts.\<close>

lemma between_calls:
  assumes ok: "sodium_ok sod" and inv: "proc_inv sod st"
    and a: "call_at sod st xs a i (r, s) e" and step: "session_step sod (r, s) e = (r1, s1)"
    and b: "call_at sod st xs b i (r', s') e'" and less: "a < b"
  shows "progress sod (emitted_before sod st xs b - emitted_before sod st xs (Suc a)) (r1, s1) (r', s') \<and>
    (\<exists>k < r. keyed sod s k) \<and> r \<le> r1 \<and> session_inv sod (r, s) \<and> session_inv sod (r', s')"
proof -
  have i: "i < length (snd st)" using a by (simp add: call_at_def)
  note nxt = call_at_next [OF ok inv a step]
  have "progress sod (emitted_before sod st xs b - emitted_before sod st xs (Suc a))
      (fst (before sod st xs (Suc a)), snd (before sod st xs (Suc a)) ! i)
      (fst (before sod st xs b), snd (before sod st xs b) ! i)"
    by (rule before_progress [OF ok inv i]) (use less in simp)
  moreover have "r \<le> r1"
    using session_step_progress [OF ok, of r s e] nxt step by (auto simp: progress_def simp del: session_inv.simps)
  moreover have "session_inv sod (r', s')"
    using before_inv [OF ok inv, of xs b] b i by (auto simp: proc_inv_def call_at_def simp del: session_inv.simps)
  ultimately show ?thesis
    using nxt b i session_inv_keyed [of sod r s] by (auto simp: call_at_def simp del: session_inv.simps)
qed

lemma progress_rekeyed:
  assumes "progress sod n (r, s1) (r', s')" and "\<exists>k < r. keyed sod s k" and "\<not> same_epoch sod n s1 s'"
  shows "rekeyed sod s s'"
proof -
  from assms(1,3) obtain k' where "r \<le> k'" "keyed sod s' k'" by (auto simp: progress_def)
  with assms(2) show ?thesis unfolding rekeyed_def by (meson order_less_le_trans)
qed

text \<open>What each kind of call does.\<close>

lemma seals_step:
  assumes "seals sod (r, s) e m"
  shows "session_step sod (r, s) e = (r, s\<lparr>tx_counter := tx_counter s + 1\<rparr>) \<and>
    read_counter (tl m) = tx_counter s \<and> call_output sod (r, s) e = [Datagram m]"
proof -
  obtain p n s1 where e: "e = SealData p n" "session_seal_data sod s p n = (s1, Some m)"
    using assms by (cases e) (auto simp: prod_eq_iff)
  from e(2) show ?thesis
    by (cases rule: session_seal_data_cases) (use e in \<open>simp_all add: crypto_seal_counter\<close>)
qed

lemma crypto_open_counter: "crypto_open sod key body n = Some (p, c) \<Longrightarrow> read_counter body = c"
  by (auto simp: crypto_open_def Let_def split: if_splits option.splits)

lemma accepts_step:
  assumes "accepts sod (r, s) e m"
  obtains s1 where "session_step sod (r, s) e = (r, s1)" "state s = SESSION_STATE_ESTABLISHED"
    "replay_check_and_mark s (read_counter (tl m)) = (s1, True)"
proof -
  obtain n s1 p where e: "e = OpenData m n" "session_open_data sod s m n = (s1, Opened p)"
    using assms by (cases e) (auto simp: prod_eq_iff)
  from e(2) show thesis
  proof (cases rule: session_open_data_cases)
    case (opened body out counter b)
    have "b" using opened(5) by (simp split: if_splits)
    with opened crypto_open_counter [OF opened(3)] e that show thesis by simp
  qed simp
qed

text \<open>No two data messages of one session carry the same nonce under the same keys.\<close>

lemma proc_nonces_fresh:
  assumes ok: "sodium_ok sod" and inv: "proc_inv sod st"
    and room: "\<forall>s \<in> set (snd st). unat (tx_counter s) + length (proc_outputs sod st xs) < 2 ^ 64"
    and a: "call_at sod st xs a i c e" "seals sod c e m" and b: "call_at sod st xs b i c' e'" "seals sod c' e' m'"
    and less: "a < b" and same: "read_counter (tl m) = read_counter (tl m')"
  shows "rekeyed sod (snd c) (snd c')"
proof -
  obtain r s r' s' where c: "c = (r, s)" "c' = (r', s')" by (cases c; cases c')
  define s1 where "s1 = s\<lparr>tx_counter := tx_counter s + 1\<rparr>"
  note sa = seals_step [OF a(2) [unfolded c]] and sb = seals_step [OF b(2) [unfolded c]]
  have step: "session_step sod (r, s) e = (r, s1)" using sa by (simp add: s1_def)
  define n where "n = emitted_before sod st xs b - emitted_before sod st xs (Suc a)"
  have between: "progress sod n (r, s1) (r', s')" "\<exists>k < r. keyed sod s k"
    using between_calls [OF ok inv a(1) [unfolded c] step b(1) [unfolded c] less] by (simp_all add: n_def)
  have i: "i < length (snd st)" using a by (simp add: call_at_def)
  obtain ss where at: "a < length xs" "xs ! a = (i, e)" "before sod st xs a = (r, ss)" "s = ss ! i"
    using a(1) by (cases "before sod st xs a") (simp add: call_at_def c)
  have "progress sod (emitted_before sod st xs a) (fst st, snd st ! i) (r, s)"
    using before_progress [OF ok inv i, of 0 a xs] at by simp
  then have "unat (tx_counter s) \<le> unat (tx_counter (snd st ! i)) + emitted_before sod st xs a"
    by (simp add: progress_def)
  moreover have "emitted_before sod st xs (Suc a) = Suc (emitted_before sod st xs a)"
    using emitted_before_Suc [OF at(1), of sod st] at sa i before_length [of sod st xs a] by simp
  moreover have "emitted_before sod st xs (Suc a) + n \<le> length (proc_outputs sod st xs)"
    unfolding n_def using emitted_before_mono [of "Suc a" b sod st xs] emitted_before_total [of sod st xs b] less by simp
  moreover have "unat (tx_counter (snd st ! i)) + length (proc_outputs sod st xs) < 2 ^ 64" using room i by simp
  ultimately have le: "unat (tx_counter s) + 1 + n < 2 ^ 64" by linarith
  then have "unat (tx_counter s1) = unat (tx_counter s) + 1" by (simp add: s1_def unat_plus_if')
  moreover from this le have "unat (tx_counter s1) + n < 2 ^ 64" by simp
  moreover have "tx_counter s' = tx_counter s" using sa sb same by simp
  ultimately have "\<not> same_epoch sod n s1 s'" by (simp add: same_epoch_def word_le_nat_alt)
  with progress_rekeyed [OF between] show ?thesis by (simp add: c)
qed

text \<open>No data message is accepted twice under the same keys.\<close>

lemma proc_accepts_once:
  assumes ok: "sodium_ok sod" and inv: "proc_inv sod st"
    and a: "call_at sod st xs a i c e" "accepts sod c e m" and b: "call_at sod st xs b i c' e'" "accepts sod c' e' m'"
    and less: "a < b" and same: "read_counter (tl m) = read_counter (tl m')"
  shows "rekeyed sod (snd c) (snd c')"
proof -
  obtain r s r' s' where c: "c = (r, s)" "c' = (r', s')" by (cases c; cases c')
  obtain s1 where sa: "session_step sod (r, s) e = (r, s1)" "state s = SESSION_STATE_ESTABLISHED"
    "replay_check_and_mark s (read_counter (tl m)) = (s1, True)"
    by (rule accepts_step [OF a(2) [unfolded c]])
  obtain s2 where sb: "session_step sod (r', s') e' = (r', s2)" "state s' = SESSION_STATE_ESTABLISHED"
    "replay_check_and_mark s' (read_counter (tl m')) = (s2, True)"
    by (rule accepts_step [OF b(2) [unfolded c]])
  define n where "n = emitted_before sod st xs b - emitted_before sod st xs (Suc a)"
  have between: "progress sod n (r, s1) (r', s')" "\<exists>k < r. keyed sod s k" "session_inv sod (r, s)"
    using between_calls [OF ok inv a(1) [unfolded c] sa(1) b(1) [unfolded c] less] by (simp_all add: n_def del: session_inv.simps)
  obtain S where "replay_inv s S" using session_invD(2) [OF ok between(3)] by blast
  from replay.check_inv [OF this sa(3)] have S: "replay_inv s1 (insert (read_counter (tl m)) S)" by simp
  have "state s1 = SESSION_STATE_ESTABLISHED"
    using replay_check_session(2) [of s "read_counter (tl m)"] sa(2,3) by simp
  have "\<not> same_epoch sod n s1 s'"
  proof
    assume "same_epoch sod n s1 s'"
    with S \<open>state s1 = SESSION_STATE_ESTABLISHED\<close> obtain S' where "insert (read_counter (tl m)) S \<subseteq> S'" "replay_inv s' S'"
      unfolding same_epoch_def by blast
    then have "replay_check_and_mark s' (read_counter (tl m)) = (s', False)"
      by (intro replay.replay_rejected) auto
    with sb(3) same show False by simp
  qed
  with progress_rekeyed [OF between(1,2)] show ?thesis by (simp add: c)
qed

text \<open>No two handshake messages of one session, sealed under the same static key, carry the same counter.\<close>

lemma shakes_step:
  assumes ok: "sodium_ok sod" and inv: "session_inv sod (r, s)" and "shakes sod (r, s) e m"
    and room: "unat (handshake_counter s) < 2 ^ 64 - 1"
  shows "hs_fresh s (read_counter (tl m)) \<and> \<not> hs_fresh (snd (session_step sod (r, s) e)) (read_counter (tl m)) \<and>
    call_output sod (r, s) e = [Datagram m]"
proof -
  have "step_nonces sod (r, s) e = [read_counter (tl m)] \<and> call_output sod (r, s) e = [Datagram m]"
    using assms(3) by (cases e) (auto simp: step_nonces_def split: prod.split)
  with step_nonces_fresh [OF ok inv, of e] room show ?thesis by (auto simp del: session_step.simps session_inv.simps)
qed

lemma proc_handshakes_fresh:
  assumes ok: "sodium_ok sod" and inv: "proc_inv sod st"
    and room: "\<forall>s \<in> set (snd st). unat (handshake_counter s) + length (proc_outputs sod st xs) < 2 ^ 64 - 1"
    and a: "call_at sod st xs a i c e" "shakes sod c e m" and b: "call_at sod st xs b i c' e'" "shakes sod c' e' m'"
    and less: "a < b"
  shows "read_counter (tl m) \<noteq> read_counter (tl m')"
proof -
  obtain r s r' s' where c: "c = (r, s)" "c' = (r', s')" by (cases c; cases c')
  obtain r1 s1 where step: "session_step sod (r, s) e = (r1, s1)" by fastforce
  define n where "n = emitted_before sod st xs b - emitted_before sod st xs (Suc a)"
  have between: "progress sod n (r1, s1) (r', s')" "session_inv sod (r, s)" "session_inv sod (r', s')"
    using between_calls [OF ok inv a(1) [unfolded c] step b(1) [unfolded c] less] by (simp_all add: n_def del: session_inv.simps)
  have i: "i < length (snd st)" using a by (simp add: call_at_def)
  have counter: "unat (handshake_counter (snd (before sod st xs x) ! i)) \<le>
      unat (handshake_counter (snd st ! i)) + emitted_before sod st xs x" for x
    using before_progress [OF ok inv i, of 0 x xs] by (simp add: progress_def hs_progress_def)
  have bound: "unat (handshake_counter (snd st ! i)) + length (proc_outputs sod st xs) < 2 ^ 64 - 1" using room i by simp
  have "emitted_before sod st xs (Suc a) + n \<le> length (proc_outputs sod st xs)"
    unfolding n_def using emitted_before_mono [of "Suc a" b sod st xs] emitted_before_total [of sod st xs b] less by simp
  moreover have "snd (before sod st xs (Suc a)) ! i = s1"
    using call_at_next [OF ok inv a(1) [unfolded c] step] i by simp
  ultimately have le: "unat (handshake_counter s1) + n < 2 ^ 64 - 1"
    using counter [of "Suc a"] bound by simp
  have small: "unat (handshake_counter s) < 2 ^ 64 - 1" "unat (handshake_counter s') < 2 ^ 64 - 1"
    using counter [of a] counter [of b] bound emitted_before_total [of sod st xs a] emitted_before_total [of sod st xs b] a b
    by (simp_all add: call_at_def c)
  have "\<not> hs_fresh s1 (read_counter (tl m))"
    using shakes_step [OF ok between(2) a(2) [unfolded c] small(1)] step by simp
  moreover have "hs_fresh s' (read_counter (tl m'))"
    using shakes_step [OF ok between(3) b(2) [unfolded c] small(2)] by blast
  then have "hs_fresh s1 (read_counter (tl m'))"
    using between(1) le by (auto simp: progress_def hs_progress_def)
  ultimately show ?thesis by auto
qed

text \<open>Both guarantees for a whole run. Two data messages with the same counter, sealed by the same session,
  are under different keys; two handshake messages of a session, all under its static key, have
  different counters.\<close>

definition nonces_unique :: "sodium \<Rightarrow> process \<Rightarrow> (nat \<times> session_event) list \<Rightarrow> bool" where
  "nonces_unique sod st xs \<longleftrightarrow>
     (\<forall>a b i c c' e e' m m'. a < b \<and> call_at sod st xs a i c e \<and> call_at sod st xs b i c' e' \<longrightarrow>
        (seals sod c e m \<and> seals sod c' e' m' \<and> read_counter (tl m) = read_counter (tl m') \<longrightarrow>
           rekeyed sod (snd c) (snd c')) \<and>
        (shakes sod c e m \<and> shakes sod c' e' m' \<longrightarrow> read_counter (tl m) \<noteq> read_counter (tl m')))"

text \<open>Two data messages with the same counter, accepted by the same session, are under different keys.\<close>

definition accepts_once :: "sodium \<Rightarrow> process \<Rightarrow> (nat \<times> session_event) list \<Rightarrow> bool" where
  "accepts_once sod st xs \<longleftrightarrow>
     (\<forall>a b i c c' e e' m m'. a < b \<and> call_at sod st xs a i c e \<and> call_at sod st xs b i c' e' \<and>
        accepts sod c e m \<and> accepts sod c' e' m' \<and> read_counter (tl m) = read_counter (tl m') \<longrightarrow>
        rekeyed sod (snd c) (snd c'))"

lemma proc_nonces_unique:
  assumes "sodium_ok sod" and "proc_inv sod st"
    and "\<forall>s \<in> set (snd st). unat (tx_counter s) + length (proc_outputs sod st xs) < 2 ^ 64 \<and>
      unat (handshake_counter s) + length (proc_outputs sod st xs) < 2 ^ 64 - 1"
  shows "nonces_unique sod st xs"
  unfolding nonces_unique_def
proof (intro allI impI conjI; elim conjE)
  fix a b i c c' e e' m m'
  assume calls: "a < b" "call_at sod st xs a i c e" "call_at sod st xs b i c' e'"
  show "rekeyed sod (snd c) (snd c')"
    if "seals sod c e m" "seals sod c' e' m'" "read_counter (tl m) = read_counter (tl m')"
    by (rule proc_nonces_fresh [OF assms(1,2) _ calls(2) that(1) calls(3) that(2) calls(1) that(3)]) (use assms(3) in blast)
  show "read_counter (tl m) \<noteq> read_counter (tl m')" if "shakes sod c e m" "shakes sod c' e' m'"
    by (rule proc_handshakes_fresh [OF assms(1,2) _ calls(2) that(1) calls(3) that(2) calls(1)]) (use assms(3) in blast)
qed

lemma proc_accepts_once_run:
  assumes "sodium_ok sod" and "proc_inv sod st"
  shows "accepts_once sod st xs"
  unfolding accepts_once_def using proc_accepts_once [OF assms] by blast

end
