(* ===== verification/Config.thy ===== *)
theory Config
  imports CLib Crypto
begin

text \<open>
  The configuration file (\<open>src/src/config.c\<close>, \<open>src/include/config.h\<close>): the value parsers
  \<open>trim\<close>, \<open>parse_cidr\<close>, \<open>parse_ip_prefix\<close> and \<open>parse_endpoint_value\<close>, and \<open>config_load\<close> as a
  scan over the lines \<open>fgets\<close> delivers. Every \<open>fprintf\<close> followed by \<open>return -1\<close> is a constructor
  of \<open>config_error\<close> carrying what the message prints. The fixed arrays of the C structures are
  lists and strings here; that they never outgrow the arrays is the invariant
  \<open>config_fits\<close>, kept by every line. The peer being filled in (\<open>cur\<close>) is the last one of
  \<open>peers\<close>.
\<close>

section \<open>Data\<close>

definition CONFIG_MAX_NAME :: nat where [const_defs]: "CONFIG_MAX_NAME = 64"
definition CONFIG_MAX_HOST :: nat where [const_defs]: "CONFIG_MAX_HOST = 256"
definition CONFIG_MAX_PEERS :: nat where [const_defs]: "CONFIG_MAX_PEERS = 8"
definition CONFIG_DEFAULT_PORT :: u16 where [const_defs]: "CONFIG_DEFAULT_PORT = 51820"
definition CONFIG_DEFAULT_DEVICE :: string where [const_defs]: "CONFIG_DEFAULT_DEVICE = ''edgar0''"
definition CONFIG_MAX_LINE :: nat where [const_defs]: "CONFIG_MAX_LINE = 512"

text \<open>Sizes the system headers give the other arrays.\<close>

definition IFNAMSIZ :: nat where [const_defs]: "IFNAMSIZ = 16"
definition INET_ADDRSTRLEN :: nat where [const_defs]: "INET_ADDRSTRLEN = 16"

record config_peer =
  host :: string
  port :: u16
  public_key :: bytes
  cfg_role :: crypto_role
  allowed_address :: u32
  allowed_prefix :: nat

record config =
  cfg_name :: string
  tun_name :: string
  tun_address :: string
  tun_netmask :: string
  listen_port :: u16
  has_private_key :: bool
  private_key :: bytes
  peers :: "config_peer list"

datatype section_t = SECTION_NONE | SECTION_INTERFACE | SECTION_PEER

datatype config_error =
    CannotOpen
  | UnterminatedHeader nat
  | PreviousPeerIncomplete nat
  | TooManyPeers nat
  | UnknownSection nat string
  | ExpectedKeyValue nat
  | NameTooLong nat
  | DeviceNameTooLong nat
  | InvalidAddress nat string
  | InvalidListenPort nat string
  | InvalidPrivateKey nat
  | UnknownInterfaceKey nat string
  | InvalidEndpoint nat string
  | InvalidPublicKey nat
  | InvalidRole nat string
  | InvalidAllowedIPs nat string
  | UnknownPeerKey nat string
  | KeyOutsideSection nat
  | FinalPeerIncomplete
  | MissingAddress
  | MissingPrivateKey

text \<open>The local variables of \<open>config_load\<close>.\<close>

record load_state =
  cfg :: config
  sect :: section_t
  have_address :: bool
  have_endpoint :: bool
  have_pubkey :: bool
  have_role :: bool
  have_allowed :: bool

section \<open>Value parsers\<close>

definition trim :: "string \<Rightarrow> string" where
  "trim s =
     (case dropWhile isspace s of
        [] \<Rightarrow> []
      | c # t \<Rightarrow> c # rev (dropWhile isspace (rev t)))"

definition prefix_mask :: "nat \<Rightarrow> u32" where
  "prefix_mask prefix = (if prefix = 0 then 0 else push_bit (32 - prefix) (NOT 0))"

text \<open>\<open>strtol\<close> of the whole string, in the range \<open>lo..hi\<close>: the test shared by the parsers.\<close>

definition strtol_range :: "int \<Rightarrow> int \<Rightarrow> string \<Rightarrow> int option" where
  "strtol_range lo hi s =
     (case strtol10 s of
        None \<Rightarrow> None
      | Some (v, rest) \<Rightarrow> if rest \<noteq> [] \<or> v < lo \<or> v > hi then None else Some v)"

definition parse_cidr :: "string \<Rightarrow> nat \<Rightarrow> nat \<Rightarrow> (string \<times> string) option" where
  "parse_cidr cidr addr_len mask_len =
     (if length cidr \<ge> CONFIG_MAX_LINE then None
      else case cut_first CHR ''/'' cidr of
        None \<Rightarrow> None
      | Some (buf, prefix_str) \<Rightarrow>
          (case strtol_range 0 32 prefix_str of
             None \<Rightarrow> None
           | Some prefix \<Rightarrow>
               if inet_pton buf = None then None
               else if length buf \<ge> addr_len then None
               else (let netmask = inet_ntop (htonl (prefix_mask (nat prefix)))
                     in if length netmask \<ge> mask_len then None else Some (buf, netmask))))"

definition parse_ip_prefix :: "string \<Rightarrow> (u32 \<times> nat) option" where
  "parse_ip_prefix text =
     (if length text \<ge> CONFIG_MAX_LINE then None
      else case cut_first CHR ''/'' text of
        None \<Rightarrow> None
      | Some (buf, prefix_str) \<Rightarrow>
          (case strtol_range 0 32 prefix_str of
             None \<Rightarrow> None
           | Some prefix \<Rightarrow>
               (case inet_pton buf of
                  None \<Rightarrow> None
                | Some addr \<Rightarrow> Some (addr, nat prefix))))"

definition parse_endpoint_value :: "string \<Rightarrow> nat \<Rightarrow> (string \<times> u16) option" where
  "parse_endpoint_value value host_len =
     (if length value \<ge> CONFIG_MAX_HOST then None
      else case cut_last CHR '':'' value of
        None \<Rightarrow> None
      | Some (buf, port_str) \<Rightarrow>
          if buf = [] then None
          else (case strtol_range 1 65535 port_str of
             None \<Rightarrow> None
           | Some p \<Rightarrow> if length buf \<ge> host_len then None else Some (buf, of_int p)))"

section \<open>Lines\<close>

text \<open>A \<open>[Peer]\<close> section just opened: \<open>memset(cur, 0, sizeof(*cur))\<close>.\<close>

definition zero_peer :: config_peer where
  "zero_peer = \<lparr>host = [], port = 0, public_key = replicate CRYPTO_PUBLIC_KEY_BYTES 0,
     cfg_role = CRYPTO_ROLE_INITIATOR, allowed_address = 0, allowed_prefix = 0\<rparr>"

definition peer_incomplete :: "load_state \<Rightarrow> bool" where
  "peer_incomplete st \<longleftrightarrow>
     sect st = SECTION_PEER \<and>
     (\<not> have_endpoint st \<or> \<not> have_pubkey st \<or> \<not> have_role st \<or> \<not> have_allowed st)"

definition section_header :: "load_state \<Rightarrow> nat \<Rightarrow> string \<Rightarrow> config_error + load_state" where
  "section_header st lineno trimmed =
     (case cut_first CHR '']'' trimmed of
        None \<Rightarrow> Inl (UnterminatedHeader lineno)
      | Some (before, _) \<Rightarrow>
          (let section_name = tl before in
             if peer_incomplete st then Inl (PreviousPeerIncomplete lineno)
             else if strcaseeq section_name ''Interface'' then Inr (st\<lparr>sect := SECTION_INTERFACE\<rparr>)
             else if strcaseeq section_name ''Peer'' then
               (if length (peers (cfg st)) \<ge> CONFIG_MAX_PEERS then Inl (TooManyPeers lineno)
                else Inr (st\<lparr>sect := SECTION_PEER,
                   cfg := (cfg st)\<lparr>peers := peers (cfg st) @ [zero_peer]\<rparr>,
                   have_endpoint := False, have_pubkey := False,
                   have_role := False, have_allowed := False\<rparr>))
             else Inl (UnknownSection lineno section_name)))"

definition interface_key ::
  "sodium \<Rightarrow> load_state \<Rightarrow> nat \<Rightarrow> string \<Rightarrow> string \<Rightarrow> config_error + load_state" where
  "interface_key sod st lineno key val =
     (if strcaseeq key ''Name'' then
        (if length val \<ge> CONFIG_MAX_NAME then Inl (NameTooLong lineno)
         else Inr (st\<lparr>cfg := (cfg st)\<lparr>cfg_name := val\<rparr>\<rparr>))
      else if strcaseeq key ''DeviceName'' then
        (if length val \<ge> IFNAMSIZ then Inl (DeviceNameTooLong lineno)
         else Inr (st\<lparr>cfg := (cfg st)\<lparr>tun_name := val\<rparr>\<rparr>))
      else if strcaseeq key ''Address'' then
        (case parse_cidr val INET_ADDRSTRLEN INET_ADDRSTRLEN of
           None \<Rightarrow> Inl (InvalidAddress lineno val)
         | Some (addr, netmask) \<Rightarrow>
             Inr (st\<lparr>cfg := (cfg st)\<lparr>tun_address := addr, tun_netmask := netmask\<rparr>, have_address := True\<rparr>))
      else if strcaseeq key ''ListenPort'' then
        (case strtol_range 1 65535 val of
           None \<Rightarrow> Inl (InvalidListenPort lineno val)
         | Some p \<Rightarrow> Inr (st\<lparr>cfg := (cfg st)\<lparr>listen_port := of_int p\<rparr>\<rparr>))
      else if strcaseeq key ''PrivateKey'' then
        (case crypto_decode_base64 sod val CRYPTO_SECRET_KEY_BYTES of
           None \<Rightarrow> Inl (InvalidPrivateKey lineno)
         | Some sk \<Rightarrow> Inr (st\<lparr>cfg := (cfg st)\<lparr>private_key := sk, has_private_key := True\<rparr>\<rparr>))
      else Inl (UnknownInterfaceKey lineno key))"

text \<open>Writing through \<open>cur\<close>: the last peer is updated.\<close>

definition upd_cur :: "(config_peer \<Rightarrow> config_peer) \<Rightarrow> config \<Rightarrow> config" where
  "upd_cur f c = c\<lparr>peers := butlast (peers c) @ [f (last (peers c))]\<rparr>"

definition peer_key ::
  "sodium \<Rightarrow> load_state \<Rightarrow> nat \<Rightarrow> string \<Rightarrow> string \<Rightarrow> config_error + load_state" where
  "peer_key sod st lineno key val =
     (if strcaseeq key ''Endpoint'' then
        (case parse_endpoint_value val CONFIG_MAX_HOST of
           None \<Rightarrow> Inl (InvalidEndpoint lineno val)
         | Some (h, p) \<Rightarrow>
             Inr (st\<lparr>cfg := upd_cur (\<lambda>c. c\<lparr>host := h, port := p\<rparr>) (cfg st), have_endpoint := True\<rparr>))
      else if strcaseeq key ''PublicKey'' then
        (case crypto_decode_base64 sod val CRYPTO_PUBLIC_KEY_BYTES of
           None \<Rightarrow> Inl (InvalidPublicKey lineno)
         | Some pk \<Rightarrow>
             Inr (st\<lparr>cfg := upd_cur (\<lambda>c. c\<lparr>public_key := pk\<rparr>) (cfg st), have_pubkey := True\<rparr>))
      else if strcaseeq key ''Role'' then
        (if strcaseeq val ''initiator'' then
           Inr (st\<lparr>cfg := upd_cur (\<lambda>c. c\<lparr>cfg_role := CRYPTO_ROLE_INITIATOR\<rparr>) (cfg st), have_role := True\<rparr>)
         else if strcaseeq val ''responder'' then
           Inr (st\<lparr>cfg := upd_cur (\<lambda>c. c\<lparr>cfg_role := CRYPTO_ROLE_RESPONDER\<rparr>) (cfg st), have_role := True\<rparr>)
         else Inl (InvalidRole lineno val))
      else if strcaseeq key ''AllowedIPs'' then
        (case parse_ip_prefix val of
           None \<Rightarrow> Inl (InvalidAllowedIPs lineno val)
         | Some (a, p) \<Rightarrow>
             Inr (st\<lparr>cfg := upd_cur (\<lambda>c. c\<lparr>allowed_address := a, allowed_prefix := p\<rparr>) (cfg st),
                  have_allowed := True\<rparr>))
      else Inl (UnknownPeerKey lineno key))"

definition key_value :: "sodium \<Rightarrow> load_state \<Rightarrow> nat \<Rightarrow> string \<Rightarrow> config_error + load_state" where
  "key_value sod st lineno trimmed =
     (case cut_first CHR ''='' trimmed of
        None \<Rightarrow> Inl (ExpectedKeyValue lineno)
      | Some (k, v) \<Rightarrow>
          (let key = trim k; val = trim v in
             case sect st of
               SECTION_INTERFACE \<Rightarrow> interface_key sod st lineno key val
             | SECTION_PEER \<Rightarrow> peer_key sod st lineno key val
             | SECTION_NONE \<Rightarrow> Inl (KeyOutsideSection lineno)))"

text \<open>One iteration of the read loop; \<open>line\<close> is what \<open>fgets\<close> stored.\<close>

definition config_line :: "sodium \<Rightarrow> load_state \<Rightarrow> nat \<Rightarrow> string \<Rightarrow> config_error + load_state" where
  "config_line sod st lineno line =
     (let trimmed = trim (cstr line) in
        if trimmed = [] \<or> hd trimmed = CHR ''#'' \<or> hd trimmed = CHR '';'' then Inr st
        else if hd trimmed = CHR ''['' then section_header st lineno trimmed
        else key_value sod st lineno trimmed)"

section \<open>Loading a file\<close>

definition default_config :: config where
  "default_config =
     \<lparr>cfg_name = ''unnamed-peer'', tun_name = [], tun_address = [], tun_netmask = [],
      listen_port = CONFIG_DEFAULT_PORT, has_private_key = False,
      private_key = replicate CRYPTO_SECRET_KEY_BYTES 0, peers = []\<rparr>"

definition load_start :: load_state where
  "load_start =
     \<lparr>cfg = default_config, sect = SECTION_NONE, have_address = False, have_endpoint = False,
      have_pubkey = False, have_role = False, have_allowed = False\<rparr>"

definition config_finish :: "load_state \<Rightarrow> config_error + config" where
  "config_finish st =
     (if peer_incomplete st then Inl FinalPeerIncomplete
      else if \<not> have_address st then Inl MissingAddress
      else if peers (cfg st) \<noteq> [] \<and> \<not> has_private_key (cfg st) then Inl MissingPrivateKey
      else Inr (if tun_name (cfg st) = [] then (cfg st)\<lparr>tun_name := CONFIG_DEFAULT_DEVICE\<rparr> else cfg st))"

text \<open>\<open>contents\<close> is what \<open>fopen\<close> and the reads deliver, \<open>None\<close> when the file cannot be opened;
  \<open>fgets\<close> has room for \<open>CONFIG_MAX_LINE - 1\<close> characters.\<close>

definition config_load :: "sodium \<Rightarrow> string option \<Rightarrow> config_error + config" where
  "config_load sod contents =
     (case contents of
        None \<Rightarrow> Inl CannotOpen
      | Some text \<Rightarrow>
          (case scan (config_line sod) 1 load_start (fgets_all (CONFIG_MAX_LINE - 2) text) of
             Inl e \<Rightarrow> Inl e
           | Inr st \<Rightarrow> config_finish st))"

section \<open>What a loaded configuration satisfies\<close>

text \<open>The strings and keys fit the arrays of \<open>edgarvpn_config_t\<close>, terminating NUL included, and
  every prefix length is at most 32, so that no shift by \<open>32 - prefix\<close> leaves the word.\<close>

definition peer_fits :: "config_peer \<Rightarrow> bool" where
  "peer_fits p \<longleftrightarrow> length (host p) < CONFIG_MAX_HOST \<and>
     length (public_key p) = CRYPTO_PUBLIC_KEY_BYTES \<and> allowed_prefix p \<le> 32"

definition config_fits :: "config \<Rightarrow> bool" where
  "config_fits c \<longleftrightarrow>
     length (cfg_name c) < CONFIG_MAX_NAME \<and> length (tun_name c) < IFNAMSIZ \<and>
     length (tun_address c) < INET_ADDRSTRLEN \<and> length (tun_netmask c) < INET_ADDRSTRLEN \<and>
     length (private_key c) = CRYPTO_SECRET_KEY_BYTES \<and>
     length (peers c) \<le> CONFIG_MAX_PEERS \<and> list_all peer_fits (peers c)"

text \<open>Some line of \<open>L\<close> assigns \<open>key\<close> a value with property \<open>P\<close>.\<close>

definition given :: "string set \<Rightarrow> string \<Rightarrow> (string \<Rightarrow> bool) \<Rightarrow> bool" where
  "given L key P \<longleftrightarrow>
     (\<exists>l \<in> L. \<exists>k v. cut_first CHR ''='' (trim (cstr l)) = Some (k, v) \<and> strcaseeq (trim k) key \<and> P (trim v))"

definition role_name :: "crypto_role \<Rightarrow> string" where
  "role_name r = (case r of CRYPTO_ROLE_INITIATOR \<Rightarrow> ''initiator'' | CRYPTO_ROLE_RESPONDER \<Rightarrow> ''responder'')"

text \<open>The four keys of a peer all come from lines of the file; likewise the interface.\<close>

definition endpoint_given :: "string set \<Rightarrow> config_peer \<Rightarrow> bool" where
  "endpoint_given L p \<longleftrightarrow>
     given L ''Endpoint'' (\<lambda>v. parse_endpoint_value v CONFIG_MAX_HOST = Some (host p, port p))"

definition pubkey_given :: "sodium \<Rightarrow> string set \<Rightarrow> config_peer \<Rightarrow> bool" where
  "pubkey_given sod L p \<longleftrightarrow>
     given L ''PublicKey'' (\<lambda>v. crypto_decode_base64 sod v CRYPTO_PUBLIC_KEY_BYTES = Some (public_key p))"

definition role_given :: "string set \<Rightarrow> config_peer \<Rightarrow> bool" where
  "role_given L p \<longleftrightarrow> given L ''Role'' (\<lambda>v. strcaseeq v (role_name (cfg_role p)))"

definition allowed_given :: "string set \<Rightarrow> config_peer \<Rightarrow> bool" where
  "allowed_given L p \<longleftrightarrow>
     given L ''AllowedIPs'' (\<lambda>v. parse_ip_prefix v = Some (allowed_address p, allowed_prefix p))"

definition peer_configured :: "sodium \<Rightarrow> string set \<Rightarrow> config_peer \<Rightarrow> bool" where
  "peer_configured sod L p \<longleftrightarrow>
     endpoint_given L p \<and> pubkey_given sod L p \<and> role_given L p \<and> allowed_given L p"

definition interface_configured :: "sodium \<Rightarrow> string set \<Rightarrow> config \<Rightarrow> bool" where
  "interface_configured sod L c \<longleftrightarrow>
     (cfg_name c = ''unnamed-peer'' \<or> given L ''Name'' (\<lambda>v. v = cfg_name c)) \<and>
     (tun_name c = [] \<or> given L ''DeviceName'' (\<lambda>v. v = tun_name c)) \<and>
     (listen_port c = CONFIG_DEFAULT_PORT \<or>
        given L ''ListenPort'' (\<lambda>v. strtol_range 1 65535 v = Some (uint (listen_port c)))) \<and>
     (has_private_key c \<longrightarrow>
        given L ''PrivateKey'' (\<lambda>v. crypto_decode_base64 sod v CRYPTO_SECRET_KEY_BYTES = Some (private_key c)))"

definition address_given :: "string set \<Rightarrow> config \<Rightarrow> bool" where
  "address_given L c \<longleftrightarrow>
     given L ''Address'' (\<lambda>v. parse_cidr v INET_ADDRSTRLEN INET_ADDRSTRLEN = Some (tun_address c, tun_netmask c))"

text \<open>The invariant of the read loop.\<close>

definition cur_inv :: "sodium \<Rightarrow> string set \<Rightarrow> load_state \<Rightarrow> bool" where
  "cur_inv sod L st \<longleftrightarrow>
     (let p = last (peers (cfg st)) in
        peers (cfg st) \<noteq> [] \<longrightarrow>
        (have_endpoint st \<longrightarrow> endpoint_given L p) \<and> (have_pubkey st \<longrightarrow> pubkey_given sod L p) \<and>
        (have_role st \<longrightarrow> role_given L p) \<and> (have_allowed st \<longrightarrow> allowed_given L p) \<and>
        (sect st \<noteq> SECTION_PEER \<longrightarrow> peer_configured sod L p))"

definition load_inv :: "sodium \<Rightarrow> string set \<Rightarrow> load_state \<Rightarrow> bool" where
  "load_inv sod L st \<longleftrightarrow>
     config_fits (cfg st) \<and> interface_configured sod L (cfg st) \<and>
     (have_address st \<longrightarrow> address_given L (cfg st)) \<and>
     (sect st = SECTION_PEER \<longrightarrow> peers (cfg st) \<noteq> []) \<and>
     list_all (peer_configured sod L) (butlast (peers (cfg st))) \<and> cur_inv sod L st"

lemmas given_defs = endpoint_given_def pubkey_given_def role_given_def allowed_given_def address_given_def

section \<open>Lemmas: values\<close>

lemma strtol_range_bounds: "strtol_range lo hi s = Some v \<Longrightarrow> lo \<le> v \<and> v \<le> hi"
  by (auto simp: strtol_range_def split: option.splits if_splits)

lemma parse_cidr_Some:
  assumes "parse_cidr s addr_len mask_len = Some (a, m)"
  shows "length a < addr_len \<and> length m < mask_len \<and> inet_pton a \<noteq> None \<and>
    (\<exists>k \<le> 32. m = inet_ntop (htonl (prefix_mask k)))"
proof -
  from assms obtain p where p: "0 \<le> p \<and> p \<le> 32" and
    r: "length a < addr_len \<and> inet_pton a \<noteq> None \<and>
      m = inet_ntop (htonl (prefix_mask (nat p))) \<and> length m < mask_len"
    by (auto simp: parse_cidr_def Let_def split: option.splits prod.splits if_splits
        dest!: strtol_range_bounds)
  from p have "nat p \<le> 32" by (simp add: nat_le_iff)
  with r show ?thesis by blast
qed

lemma parse_ip_prefix_Some: "parse_ip_prefix s = Some (a, k) \<Longrightarrow> k \<le> 32"
  by (auto simp: parse_ip_prefix_def split: option.splits prod.splits if_splits dest!: strtol_range_bounds)

lemma parse_endpoint_Some:
  assumes "parse_endpoint_value s n = Some (h, p)"
  shows "h \<noteq> [] \<and> length h < n \<and> p \<noteq> 0"
proof -
  from assms obtain v where v: "1 \<le> v \<and> v \<le> 65535" and "p = of_int v" "h \<noteq> []" "length h < n"
    by (auto simp: parse_endpoint_value_def split: option.splits prod.splits if_splits
        dest!: strtol_range_bounds)
  moreover have "uint (of_int v :: u16) = v"
    using v by (simp add: uint_word_of_int take_bit_int_eq_self)
  then have "of_int v \<noteq> (0::u16)" using v by auto
  ultimately show ?thesis by simp
qed

lemma decode_length: "crypto_decode_base64 sod v n = Some k \<Longrightarrow> length k = n"
  by (auto simp: crypto_decode_base64_def split: option.splits if_splits)

lemma port_roundtrip: "strtol_range 1 65535 s = Some p \<Longrightarrow> uint (of_int p :: u16) = p"
  by (drule strtol_range_bounds) (simp add: uint_word_of_int take_bit_int_eq_self)

section \<open>Lemmas: the read loop keeps its invariant\<close>

lemma given_intro:
  "l \<in> L \<Longrightarrow> cut_first CHR ''='' (trim (cstr l)) = Some (k, v) \<Longrightarrow> strcaseeq (trim k) key \<Longrightarrow> P (trim v) \<Longrightarrow>
     given L key P"
  by (auto simp: given_def)

lemma load_start_inv: "load_inv sod L load_start"
  by (simp add: load_inv_def load_start_def default_config_def config_fits_def interface_configured_def
      cur_inv_def const_defs)

lemma section_header_inv:
  assumes inv: "load_inv sod L st" and r: "section_header st n t = Inr st'"
  shows "load_inv sod L st'"
proof -
  have complete: "list_all (peer_configured sod L) (peers (cfg st))" if "\<not> peer_incomplete st"
  proof (cases "peers (cfg st)" rule: rev_cases)
    case (snoc ps p)
    with inv that show ?thesis
      by (cases "sect st = SECTION_PEER")
        (auto simp: load_inv_def cur_inv_def peer_incomplete_def peer_configured_def)
  qed simp
  from r consider
      "\<not> peer_incomplete st" "st' = st\<lparr>sect := SECTION_INTERFACE\<rparr>"
    | "\<not> peer_incomplete st" "length (peers (cfg st)) < CONFIG_MAX_PEERS"
      "st' = st\<lparr>sect := SECTION_PEER, cfg := (cfg st)\<lparr>peers := peers (cfg st) @ [zero_peer]\<rparr>,
         have_endpoint := False, have_pubkey := False, have_role := False, have_allowed := False\<rparr>"
    by (auto simp: section_header_def Let_def split: option.splits prod.splits if_splits)
  then show ?thesis
  proof cases
    case 1
    from complete [OF 1(1)] have "peers (cfg st) \<noteq> [] \<Longrightarrow> peer_configured sod L (last (peers (cfg st)))"
      by (simp add: list_all_iff)
    with inv show ?thesis by (simp add: 1(2) load_inv_def cur_inv_def Let_def)
  next
    case 2
    from complete [OF 2(1)] inv 2(2) show ?thesis
      by (simp add: 2(3) load_inv_def cur_inv_def config_fits_def interface_configured_def
          address_given_def zero_peer_def peer_fits_def const_defs)
  qed
qed

lemma interface_key_inv:
  assumes inv: "load_inv sod L st"
    and given: "\<And>k P. strcaseeq key k \<Longrightarrow> P val \<Longrightarrow> given L k P"
    and r: "interface_key sod st n key val = Inr st'"
  shows "load_inv sod L st'"
proof -
  have keep: "load_inv sod L (st\<lparr>cfg := c\<rparr>)"
    if "config_fits c" "interface_configured sod L c" "address_given L c = address_given L (cfg st)"
      "peers c = peers (cfg st)" for c
    using inv that by (simp add: load_inv_def cur_inv_def)
  have I: "config_fits (cfg st)" "interface_configured sod L (cfg st)"
    using inv by (simp_all add: load_inv_def)
  from r consider
      "strcaseeq key ''Name''" "length val < CONFIG_MAX_NAME" "st' = st\<lparr>cfg := (cfg st)\<lparr>cfg_name := val\<rparr>\<rparr>"
    | "strcaseeq key ''DeviceName''" "length val < IFNAMSIZ" "st' = st\<lparr>cfg := (cfg st)\<lparr>tun_name := val\<rparr>\<rparr>"
    | a m where "strcaseeq key ''Address''" "parse_cidr val INET_ADDRSTRLEN INET_ADDRSTRLEN = Some (a, m)"
      "st' = st\<lparr>cfg := (cfg st)\<lparr>tun_address := a, tun_netmask := m\<rparr>, have_address := True\<rparr>"
    | p where "strcaseeq key ''ListenPort''" "strtol_range 1 65535 val = Some p"
      "st' = st\<lparr>cfg := (cfg st)\<lparr>listen_port := of_int p\<rparr>\<rparr>"
    | sk where "strcaseeq key ''PrivateKey''" "crypto_decode_base64 sod val CRYPTO_SECRET_KEY_BYTES = Some sk"
      "st' = st\<lparr>cfg := (cfg st)\<lparr>private_key := sk, has_private_key := True\<rparr>\<rparr>"
    by (auto simp: interface_key_def split: option.splits prod.splits if_splits)
  then show ?thesis
  proof cases
    case 1
    have "given L ''Name'' (\<lambda>v. v = val)" by (rule given [OF 1(1)]) simp
    with I 1(2) show ?thesis
      unfolding 1(3) by (intro keep) (simp_all add: config_fits_def interface_configured_def address_given_def)
  next
    case 2
    have "given L ''DeviceName'' (\<lambda>v. v = val)" by (rule given [OF 2(1)]) simp
    with I 2(2) show ?thesis
      unfolding 2(3) by (intro keep) (simp_all add: config_fits_def interface_configured_def address_given_def)
  next
    case 3
    have "given L ''Address'' (\<lambda>v. parse_cidr v INET_ADDRSTRLEN INET_ADDRSTRLEN = Some (a, m))"
      by (rule given [OF 3(1)]) (rule 3(2))
    with inv parse_cidr_Some [OF 3(2)] show ?thesis
      by (simp add: 3(3) load_inv_def cur_inv_def config_fits_def interface_configured_def address_given_def)
  next
    case 4
    have "given L ''ListenPort'' (\<lambda>v. strtol_range 1 65535 v = Some (uint (of_int p :: u16)))"
      by (rule given [OF 4(1)]) (use 4(2) port_roundtrip [OF 4(2)] in simp)
    with I show ?thesis
      unfolding 4(3) by (intro keep) (simp_all add: config_fits_def interface_configured_def address_given_def)
  next
    case 5
    have "given L ''PrivateKey'' (\<lambda>v. crypto_decode_base64 sod v CRYPTO_SECRET_KEY_BYTES = Some sk)"
      by (rule given [OF 5(1)]) (rule 5(2))
    with I decode_length [OF 5(2)] show ?thesis
      unfolding 5(3) by (intro keep) (simp_all add: config_fits_def interface_configured_def address_given_def)
  qed
qed

lemma peer_update_inv:
  assumes inv: "load_inv sod L st" and sect: "sect st = SECTION_PEER"
    and snoc: "peers (cfg st) = ps @ [p]"
    and fits: "peer_fits (f p)"
    and st': "st' = st\<lparr>cfg := upd_cur f (cfg st), have_endpoint := e, have_pubkey := k,
       have_role := r, have_allowed := a\<rparr>"
    and "e \<Longrightarrow> endpoint_given L (f p)" "k \<Longrightarrow> pubkey_given sod L (f p)"
      "r \<Longrightarrow> role_given L (f p)" "a \<Longrightarrow> allowed_given L (f p)"
  shows "load_inv sod L st'"
  using assms by (simp add: load_inv_def cur_inv_def Let_def upd_cur_def config_fits_def
      interface_configured_def address_given_def)

lemma peer_key_inv:
  assumes inv: "load_inv sod L st" and sect: "sect st = SECTION_PEER"
    and given: "\<And>k P. strcaseeq key k \<Longrightarrow> P val \<Longrightarrow> given L k P"
    and r: "peer_key sod st n key val = Inr st'"
  shows "load_inv sod L st'"
proof -
  from inv sect obtain ps p where snoc: "peers (cfg st) = ps @ [p]"
    by (cases "peers (cfg st)" rule: rev_cases) (auto simp: load_inv_def)
  note upd = peer_update_inv [OF inv sect snoc]
  have fits: "peer_fits p" using inv snoc by (simp add: load_inv_def config_fits_def)
  have cur: "have_endpoint st \<Longrightarrow> endpoint_given L p" "have_pubkey st \<Longrightarrow> pubkey_given sod L p"
    "have_role st \<Longrightarrow> role_given L p" "have_allowed st \<Longrightarrow> allowed_given L p"
    using inv snoc by (simp_all add: load_inv_def cur_inv_def Let_def)
  have role: "load_inv sod L st'" if "strcaseeq key ''Role''" "strcaseeq val (role_name ro)"
      "st' = st\<lparr>cfg := upd_cur (\<lambda>c. c\<lparr>cfg_role := ro\<rparr>) (cfg st), have_role := True\<rparr>" for ro
    by (rule upd [where f = "\<lambda>c. c\<lparr>cfg_role := ro\<rparr>" and e = "have_endpoint st" and k = "have_pubkey st"
          and r = True and a = "have_allowed st"])
      (use fits cur given [OF that(1)] that(2,3) in \<open>simp_all add: given_defs peer_fits_def\<close>)
  from r consider
      h q where "strcaseeq key ''Endpoint''" "parse_endpoint_value val CONFIG_MAX_HOST = Some (h, q)"
      "st' = st\<lparr>cfg := upd_cur (\<lambda>c. c\<lparr>host := h, port := q\<rparr>) (cfg st), have_endpoint := True\<rparr>"
    | pk where "strcaseeq key ''PublicKey''" "crypto_decode_base64 sod val CRYPTO_PUBLIC_KEY_BYTES = Some pk"
      "st' = st\<lparr>cfg := upd_cur (\<lambda>c. c\<lparr>public_key := pk\<rparr>) (cfg st), have_pubkey := True\<rparr>"
    | "strcaseeq key ''Role''" "strcaseeq val ''initiator''"
      "st' = st\<lparr>cfg := upd_cur (\<lambda>c. c\<lparr>cfg_role := CRYPTO_ROLE_INITIATOR\<rparr>) (cfg st), have_role := True\<rparr>"
    | "strcaseeq key ''Role''" "strcaseeq val ''responder''"
      "st' = st\<lparr>cfg := upd_cur (\<lambda>c. c\<lparr>cfg_role := CRYPTO_ROLE_RESPONDER\<rparr>) (cfg st), have_role := True\<rparr>"
    | a k where "strcaseeq key ''AllowedIPs''" "parse_ip_prefix val = Some (a, k)"
      "st' = st\<lparr>cfg := upd_cur (\<lambda>c. c\<lparr>allowed_address := a, allowed_prefix := k\<rparr>) (cfg st),
         have_allowed := True\<rparr>"
    by (auto simp: peer_key_def split: option.splits prod.splits if_splits)
  then show ?thesis
  proof cases
    case 1
    show ?thesis
      by (rule upd [where f = "\<lambda>c. c\<lparr>host := h, port := q\<rparr>" and e = True and k = "have_pubkey st"
            and r = "have_role st" and a = "have_allowed st"])
        (use fits cur given [OF 1(1)] parse_endpoint_Some [OF 1(2)] 1(2,3) in
          \<open>simp_all add: given_defs peer_fits_def\<close>)
  next
    case 2
    show ?thesis
      by (rule upd [where f = "\<lambda>c. c\<lparr>public_key := pk\<rparr>" and e = "have_endpoint st" and k = True
            and r = "have_role st" and a = "have_allowed st"])
        (use fits cur given [OF 2(1)] decode_length [OF 2(2)] 2(2,3) in
          \<open>simp_all add: given_defs peer_fits_def\<close>)
  next
    case 3
    show ?thesis by (rule role [OF 3(1) _ 3(3)]) (simp add: role_name_def 3(2))
  next
    case 4
    show ?thesis by (rule role [OF 4(1) _ 4(3)]) (simp add: role_name_def 4(2))
  next
    case 5
    show ?thesis
      by (rule upd [where f = "\<lambda>c. c\<lparr>allowed_address := a, allowed_prefix := k\<rparr>"
            and e = "have_endpoint st" and k = "have_pubkey st" and r = "have_role st" and a = True])
        (use fits cur given [OF 5(1)] parse_ip_prefix_Some [OF 5(2)] 5(2,3) in
          \<open>simp_all add: given_defs peer_fits_def\<close>)
  qed
qed

lemma key_value_inv:
  assumes inv: "load_inv sod L st" and l: "l \<in> L"
    and r: "key_value sod st n (trim (cstr l)) = Inr st'"
  shows "load_inv sod L st'"
proof (cases "cut_first CHR ''='' (trim (cstr l))")
  case None
  with r show ?thesis by (simp add: key_value_def)
next
  case (Some kv)
  obtain k v where kv: "kv = (k, v)" by (cases kv)
  have given: "given L key P" if "strcaseeq (trim k) key" "P (trim v)" for key P
    using given_intro [of l L k v key P] l that Some kv by simp
  show ?thesis
  proof (cases "sect st")
    case SECTION_NONE
    with r Some kv show ?thesis by (simp add: key_value_def Let_def)
  next
    case SECTION_INTERFACE
    with r Some kv have i: "interface_key sod st n (trim k) (trim v) = Inr st'"
      by (simp add: key_value_def Let_def)
    show ?thesis by (rule interface_key_inv [OF inv _ i]) (rule given)
  next
    case SECTION_PEER
    with r Some kv have i: "peer_key sod st n (trim k) (trim v) = Inr st'"
      by (simp add: key_value_def Let_def)
    show ?thesis by (rule peer_key_inv [OF inv SECTION_PEER _ i]) (rule given)
  qed
qed

lemma config_line_inv:
  assumes inv: "load_inv sod L st" and l: "l \<in> L" and r: "config_line sod st n l = Inr st'"
  shows "load_inv sod L st'"
proof -
  define t where "t = trim (cstr l)"
  have r: "(if t = [] \<or> hd t = CHR ''#'' \<or> hd t = CHR '';'' then Inr st
      else if hd t = CHR ''['' then section_header st n t else key_value sod st n t) = Inr st'"
    using r by (simp only: config_line_def Let_def t_def)
  show ?thesis
  proof (cases "t = [] \<or> hd t = CHR ''#'' \<or> hd t = CHR '';''")
    case True
    with r inv show ?thesis by simp
  next
    case False
    show ?thesis
    proof (cases "hd t = CHR ''[''")
      case True
      with r False have "section_header st n t = Inr st'" by simp
      then show ?thesis by (rule section_header_inv [OF inv])
    next
      case False
      with r \<open>\<not> (t = [] \<or> hd t = CHR ''#'' \<or> hd t = CHR '';'')\<close>
      have "key_value sod st n t = Inr st'" by simp
      then show ?thesis unfolding t_def by (rule key_value_inv [OF inv l])
    qed
  qed
qed

interpretation loader: checked_scan "config_line sod" L "load_inv sod L" for sod L
  by unfold_locales (rule config_line_inv)

lemma config_load_inv:
  assumes "config_load sod (Some text) = Inr c"
  obtains st where "load_inv sod (set (fgets_all (CONFIG_MAX_LINE - 2) text)) st" "config_finish st = Inr c"
proof -
  from assms obtain st where
    "scan (config_line sod) 1 load_start (fgets_all (CONFIG_MAX_LINE - 2) text) = Inr st"
    "config_finish st = Inr c"
    by (auto simp: config_load_def split: sum.splits)
  with loader.scan_inv [OF load_start_inv order_refl] that show ?thesis by blast
qed

lemma config_finish_Inr:
  assumes "config_finish st = Inr c"
  obtains "\<not> peer_incomplete st" "have_address st" "peers (cfg st) \<noteq> [] \<Longrightarrow> has_private_key (cfg st)"
    "c = (if tun_name (cfg st) = [] then (cfg st)\<lparr>tun_name := CONFIG_DEFAULT_DEVICE\<rparr> else cfg st)"
  using assms by (auto simp: config_finish_def split: if_splits)

lemma load_inv_peers:
  assumes inv: "load_inv sod L st" and "\<not> peer_incomplete st"
  shows "list_all (peer_configured sod L) (peers (cfg st))"
proof (cases "peers (cfg st)" rule: rev_cases)
  case (snoc ps p)
  with assms show ?thesis
    by (cases "sect st = SECTION_PEER")
      (auto simp: load_inv_def cur_inv_def peer_incomplete_def peer_configured_def)
qed simp

lemma config_load_configured:
  assumes "config_load sod (Some text) = Inr c"
  defines "L \<equiv> set (fgets_all (CONFIG_MAX_LINE - 2) text)"
  shows "list_all (peer_configured sod L) (peers c) \<and> address_given L c \<and>
    (tun_name c = CONFIG_DEFAULT_DEVICE \<or> given L ''DeviceName'' (\<lambda>v. v = tun_name c)) \<and>
    (cfg_name c = ''unnamed-peer'' \<or> given L ''Name'' (\<lambda>v. v = cfg_name c)) \<and>
    (listen_port c = CONFIG_DEFAULT_PORT \<or>
       given L ''ListenPort'' (\<lambda>v. strtol_range 1 65535 v = Some (uint (listen_port c)))) \<and>
    (has_private_key c \<longrightarrow>
       given L ''PrivateKey'' (\<lambda>v. crypto_decode_base64 sod v CRYPTO_SECRET_KEY_BYTES = Some (private_key c)))"
proof -
  obtain st where inv: "load_inv sod L st" and fin: "config_finish st = Inr c"
    using config_load_inv [OF assms(1)] unfolding L_def by blast
  from fin show ?thesis
    by (rule config_finish_Inr)
      (use inv load_inv_peers [OF inv] in
        \<open>auto simp: load_inv_def interface_configured_def address_given_def split: if_splits\<close>)
qed

lemma given_value: "given L key P \<Longrightarrow> \<exists>v. P v"
  by (auto simp: given_def)

lemma config_load_valid:
  assumes "config_load sod contents = Inr c"
  shows "config_fits c \<and> tun_name c \<noteq> [] \<and> listen_port c \<noteq> 0 \<and>
    (peers c \<noteq> [] \<longrightarrow> has_private_key c) \<and>
    (\<forall>p \<in> set (peers c). host p \<noteq> [] \<and> port p \<noteq> 0) \<and>
    inet_pton (tun_address c) \<noteq> None \<and>
    (\<exists>k \<le> 32. inet_pton (tun_netmask c) = Some (htonl (prefix_mask k)))"
proof -
  from assms obtain t where load: "config_load sod (Some t) = Inr c"
    by (cases contents) (auto simp: config_load_def)
  define L where "L = set (fgets_all (CONFIG_MAX_LINE - 2) t)"
  note given = config_load_configured [OF load, folded L_def]
  obtain st where inv: "load_inv sod L st" and fin: "config_finish st = Inr c"
    using config_load_inv [OF load] unfolding L_def by blast
  from fin have "config_fits c \<and> tun_name c \<noteq> [] \<and> (peers c \<noteq> [] \<longrightarrow> has_private_key c)"
    by (rule config_finish_Inr) (use inv in \<open>auto simp: load_inv_def config_fits_def const_defs\<close>)
  moreover have "listen_port c \<noteq> 0"
    using given by (auto simp: const_defs dest!: given_value strtol_range_bounds)
  moreover have "host p \<noteq> [] \<and> port p \<noteq> 0" if "p \<in> set (peers c)" for p
    using given that
    by (auto simp: list_all_iff peer_configured_def endpoint_given_def
        dest!: bspec given_value parse_endpoint_Some)
  moreover obtain v where "parse_cidr v INET_ADDRSTRLEN INET_ADDRSTRLEN = Some (tun_address c, tun_netmask c)"
    using given by (auto simp: address_given_def dest!: given_value)
  from parse_cidr_Some [OF this] have "inet_pton (tun_address c) \<noteq> None"
    "\<exists>k \<le> 32. inet_pton (tun_netmask c) = Some (htonl (prefix_mask k))"
    by auto
  ultimately show ?thesis by blast
qed

lemma config_line_comment: "config_line sod st n (CHR ''#'' # s) = Inr st"
  by (simp add: config_line_def cstr_def trim_def isspace_def)

end
