(* ===== verification/Config_Roundtrip.thy ===== *)
theory Config_Roundtrip
  imports Config
begin

text \<open>
  Completeness of the loader: a configuration written out in the documented file format is
  loaded back unchanged. \<open>config_text\<close> is a reference printer for that format (the program
  itself only reads it); the lemmas below follow one printed line through \<open>fgets\<close>, \<open>trim\<close> and
  the two key tables.
\<close>

section \<open>The reference printer\<close>

definition assign_line :: "string \<Rightarrow> string \<Rightarrow> string" where
  "assign_line key val = key @ '' = '' @ val"

definition peer_lines :: "sodium \<Rightarrow> config_peer \<Rightarrow> string list" where
  "peer_lines sod p =
     [''[Peer]'',
      assign_line ''Endpoint'' (host p @ '':'' @ show_nat (unat (port p))),
      assign_line ''PublicKey'' (crypto_encode_base64 sod (public_key p)),
      assign_line ''Role'' (role_name (cfg_role p)),
      assign_line ''AllowedIPs'' (inet_ntop (allowed_address p) @ ''/'' @ show_nat (allowed_prefix p))]"

definition interface_lines :: "sodium \<Rightarrow> nat \<Rightarrow> config \<Rightarrow> string list" where
  "interface_lines sod prefix c =
     [''[Interface]'',
      assign_line ''Name'' (cfg_name c),
      assign_line ''DeviceName'' (tun_name c),
      assign_line ''Address'' (tun_address c @ ''/'' @ show_nat prefix),
      assign_line ''ListenPort'' (show_nat (unat (listen_port c)))] @
     (if has_private_key c then [assign_line ''PrivateKey'' (crypto_encode_base64 sod (private_key c))] else [])"

definition config_lines :: "sodium \<Rightarrow> nat \<Rightarrow> config \<Rightarrow> string list" where
  "config_lines sod prefix c = interface_lines sod prefix c @ concat (map (peer_lines sod) (peers c))"

definition config_text :: "sodium \<Rightarrow> nat \<Rightarrow> config \<Rightarrow> string" where
  "config_text sod prefix c = concat (map (\<lambda>l. l @ [NL]) (config_lines sod prefix c))"

text \<open>Text that survives a line: no NUL, no newline, nothing for \<open>trim\<close> to remove.\<close>

definition plain :: "string \<Rightarrow> bool" where
  "plain s \<longleftrightarrow> NUL \<notin> set s \<and> NL \<notin> set s \<and>
     (s \<noteq> [] \<longrightarrow> \<not> isspace (hd s) \<and> \<not> isspace (last s))"

definition peer_printable :: "config_peer \<Rightarrow> bool" where
  "peer_printable p \<longleftrightarrow>
     plain (host p) \<and> host p \<noteq> [] \<and> length (host p) < CONFIG_MAX_HOST - 6 \<and> port p \<noteq> 0 \<and>
     length (public_key p) = CRYPTO_PUBLIC_KEY_BYTES \<and> allowed_prefix p \<le> 32"

definition config_printable :: "nat \<Rightarrow> config \<Rightarrow> bool" where
  "config_printable prefix c \<longleftrightarrow>
     prefix \<le> 32 \<and> config_fits c \<and> plain (cfg_name c) \<and> plain (tun_name c) \<and> tun_name c \<noteq> [] \<and>
     (\<exists>a. tun_address c = inet_ntop a) \<and> tun_netmask c = inet_ntop (htonl (prefix_mask prefix)) \<and>
     listen_port c \<noteq> 0 \<and>
     (has_private_key c \<or> peers c = [] \<and> private_key c = replicate CRYPTO_SECRET_KEY_BYTES 0) \<and>
     list_all peer_printable (peers c)"

section \<open>Lines\<close>

lemma fgets_line:
  "NL \<notin> set l \<Longrightarrow> length l \<le> n \<Longrightarrow> fgets (Suc n) (l @ NL # rest) = (l @ [NL], rest)"
proof (induction l arbitrary: n)
  case (Cons c l)
  from Cons.prems(2) obtain m where "n = Suc m" "length l \<le> m" by (cases n) simp_all
  with Cons show ?case by auto
qed simp

lemma fgets_full: "NL \<notin> set l \<Longrightarrow> fgets (length l) (l @ rest) = (l, rest)"
  by (induction l) auto

lemma fgets_all_lines:
  assumes "\<And>l. l \<in> set ls \<Longrightarrow> NL \<notin> set l \<and> length l \<le> n"
  shows "fgets_all n (concat (map (\<lambda>l. l @ [NL]) ls)) = map (\<lambda>l. l @ [NL]) ls"
  using assms
proof (induction ls)
  case Nil
  then show ?case by (simp add: fgets_all.simps)
next
  case (Cons l ls)
  let ?rest = "concat (map (\<lambda>l. l @ [NL]) ls)"
  have "fgets_all n (l @ NL # ?rest) = (l @ [NL]) # fgets_all n ?rest"
    using fgets_line [of l n ?rest] Cons.prems [of l] by (subst fgets_all.simps) simp
  with Cons show ?case by simp
qed

lemma fgets_all_reads:
  "concat (fgets_all n s) = s \<and> length (fgets_all n s) \<le> length s \<and>
     (\<forall>l \<in> set (fgets_all n s). l \<noteq> [] \<and> length l \<le> Suc n)"
proof (induction n s rule: fgets_all.induct)
  case (1 n s)
  show ?case
  proof (cases "s = []")
    case False
    obtain l r where f: "fgets (Suc n) s = (l, r)" by fastforce
    have "s = l @ r" "length l \<le> Suc n" "length r < length s"
      using fgets_append [OF f] fgets_rest_less [OF False, of n] f by auto
    moreover from this have "l \<noteq> []" by auto
    moreover have "fgets_all n s = l # fgets_all n r"
      by (subst fgets_all.simps) (simp add: f False)
    ultimately show ?thesis
      using 1 [OF False f [symmetric]] by (cases l) auto
  qed (simp add: fgets_all.simps)
qed

text \<open>Stripping trailing white space stops at the last character that is not white space.\<close>

definition strip_end :: "string \<Rightarrow> string" where
  "strip_end s = rev (dropWhile isspace (rev s))"

lemma strip_end_mid: "\<not> isspace c \<Longrightarrow> strip_end (a @ c # b) = a @ c # strip_end b"
  by (simp add: strip_end_def dropWhile_append)

lemma strip_end_space: "isspace c \<Longrightarrow> strip_end (s @ [c]) = strip_end s"
  by (simp add: strip_end_def)

lemma trim_strip: "trim s = strip_end (dropWhile isspace s)"
proof (cases "dropWhile isspace s")
  case (Cons c t)
  then have "\<not> isspace c" by (metis hd_dropWhile list.distinct(1) list.sel(1))
  with Cons strip_end_mid [of c "[]" t] show ?thesis
    by (simp add: trim_def strip_end_def)
next
  case Nil
  show ?thesis unfolding trim_def strip_end_def Nil by simp
qed

lemma plain_strip: "plain s \<Longrightarrow> strip_end s = s"
  by (cases s rule: rev_cases) (auto simp: plain_def strip_end_def)

lemma plain_trim: "plain s \<Longrightarrow> trim s = s"
proof -
  assume p: "plain s"
  then have "dropWhile isspace s = s" by (cases s) (auto simp: plain_def)
  with plain_strip [OF p] show ?thesis by (simp add: trim_strip)
qed

lemma isspace_simps [simp]: "isspace CHR '' ''" "isspace NL" "\<not> isspace CHR ''=''"
  by (simp_all add: isspace_def)

text \<open>A key as the tables spell it: a non-empty word of letters.\<close>

definition key_word :: "string \<Rightarrow> bool" where
  "key_word k \<longleftrightarrow> k \<noteq> [] \<and>
     list_all (\<lambda>c. c \<notin> set [CHR ''='', CHR ''#'', CHR '';'', CHR ''['', NUL] \<and> \<not> isspace c) k"

lemma assign_trimmed:
  assumes "key_word k" and "plain v"
  shows "trim (cstr (assign_line k v @ [NL])) = k @ '' ='' @ strip_end (CHR '' '' # v)"
proof -
  have "cstr (assign_line k v @ [NL]) = assign_line k v @ [NL]"
    using assms by (auto simp: cstr_def assign_line_def key_word_def plain_def list_all_iff takeWhile_eq_all_conv)
  moreover have "dropWhile isspace (assign_line k v @ [NL]) = assign_line k v @ [NL]"
    using assms by (cases k) (auto simp: assign_line_def key_word_def)
  ultimately have "trim (cstr (assign_line k v @ [NL])) = strip_end ((k @ '' '') @ CHR ''='' # ('' '' @ v @ [NL]))"
    by (simp add: trim_strip assign_line_def)
  also have "\<dots> = k @ '' ='' @ strip_end ((CHR '' '' # v) @ [NL])"
    by (subst strip_end_mid) simp_all
  finally show ?thesis by (simp only: strip_end_space isspace_simps)
qed

lemma trim_space_value: "plain v \<Longrightarrow> trim (strip_end (CHR '' '' # v)) = v"
proof (cases "v = []")
  case True
  then show ?thesis by (simp add: strip_end_def trim_def)
next
  case False
  assume p: "plain v"
  from False obtain c w where v: "v = w @ [c]" by (cases v rule: rev_cases) auto
  with p have "\<not> isspace c" by (simp add: plain_def)
  then have "strip_end (CHR '' '' # v) = CHR '' '' # v"
    using strip_end_mid [of c "CHR '' '' # w" "[]"] v by (simp add: strip_end_def)
  with plain_trim [OF p] show ?thesis by (simp add: trim_def)
qed

lemma trim_key: "key_word k \<Longrightarrow> trim (k @ '' '') = k"
proof -
  assume k: "key_word k"
  then obtain c w where "k = w @ [c]" "\<not> isspace c"
    by (cases k rule: rev_cases) (auto simp: key_word_def)
  moreover have "dropWhile isspace (k @ '' '') = k @ '' ''"
    using k by (cases k) (auto simp: key_word_def)
  ultimately show ?thesis by (simp add: trim_strip strip_end_def)
qed

text \<open>What an assignment line does, and what the two headers do.\<close>

lemma config_line_assign:
  assumes k: "key_word k" and v: "plain v"
  shows "config_line sod st n (assign_line k v @ [NL]) =
    (case sect st of
       SECTION_INTERFACE \<Rightarrow> interface_key sod st n k v
     | SECTION_PEER \<Rightarrow> peer_key sod st n k v
     | SECTION_NONE \<Rightarrow> Inl (KeyOutsideSection n))"
proof -
  let ?t = "k @ '' ='' @ strip_end (CHR '' '' # v)"
  have cut: "cut_first CHR ''='' ?t = Some (k @ '' '', strip_end (CHR '' '' # v))"
    using cut_first_append [of "CHR ''=''" "k @ '' ''"] k by (auto simp: key_word_def list_all_iff)
  have "?t \<noteq> []" "hd ?t \<noteq> CHR ''#''" "hd ?t \<noteq> CHR '';''" "hd ?t \<noteq> CHR ''[''"
    using k by (cases k; simp add: key_word_def)+
  then have "config_line sod st n (assign_line k v @ [NL]) = key_value sod st n ?t"
    by (simp only: config_line_def assign_trimmed [OF k v] Let_def) simp
  also have "\<dots> = (case sect st of
       SECTION_INTERFACE \<Rightarrow> interface_key sod st n k v
     | SECTION_PEER \<Rightarrow> peer_key sod st n k v
     | SECTION_NONE \<Rightarrow> Inl (KeyOutsideSection n))"
    by (simp only: key_value_def cut option.case prod.case Let_def trim_key [OF k] trim_space_value [OF v])
  finally show ?thesis .
qed

text \<open>The spellings of the tables are pairwise different up to case.\<close>

lemma key_table:
  "strcaseeq s s"
  "\<not> strcaseeq ''DeviceName'' ''Name''"
  "\<not> strcaseeq ''Address'' ''Name''" "\<not> strcaseeq ''Address'' ''DeviceName''"
  "\<not> strcaseeq ''ListenPort'' ''Name''" "\<not> strcaseeq ''ListenPort'' ''DeviceName''"
  "\<not> strcaseeq ''ListenPort'' ''Address''"
  "\<not> strcaseeq ''PrivateKey'' ''Name''" "\<not> strcaseeq ''PrivateKey'' ''DeviceName''"
  "\<not> strcaseeq ''PrivateKey'' ''Address''" "\<not> strcaseeq ''PrivateKey'' ''ListenPort''"
  "\<not> strcaseeq ''PublicKey'' ''Endpoint''" "\<not> strcaseeq ''Role'' ''Endpoint''"
  "\<not> strcaseeq ''Role'' ''PublicKey''" "\<not> strcaseeq ''AllowedIPs'' ''Endpoint''"
  "\<not> strcaseeq ''AllowedIPs'' ''PublicKey''" "\<not> strcaseeq ''AllowedIPs'' ''Role''"
  "\<not> strcaseeq ''responder'' ''initiator''" "\<not> strcaseeq ''Peer'' ''Interface''"
  by (simp_all add: strcaseeq_def tolower_def)

lemma key_words:
  "key_word ''Name''" "key_word ''DeviceName''" "key_word ''Address''" "key_word ''ListenPort''"
  "key_word ''PrivateKey''" "key_word ''Endpoint''" "key_word ''PublicKey''" "key_word ''Role''"
  "key_word ''AllowedIPs''"
  by code_simp+

lemma header_lines:
  "trim (cstr (''[Interface]'' @ [NL])) = ''[Interface]''" "trim (cstr (''[Peer]'' @ [NL])) = ''[Peer]''"
  by code_simp+

lemma config_line_interface:
  "\<not> peer_incomplete st \<Longrightarrow>
     config_line sod st n (''[Interface]'' @ [NL]) = Inr (st\<lparr>sect := SECTION_INTERFACE\<rparr>)"
  by (simp only: config_line_def header_lines Let_def)
    (simp add: section_header_def key_table)

lemma config_line_peer:
  "\<not> peer_incomplete st \<Longrightarrow> length (peers (cfg st)) < CONFIG_MAX_PEERS \<Longrightarrow>
     config_line sod st n (''[Peer]'' @ [NL]) =
       Inr (st\<lparr>sect := SECTION_PEER, cfg := (cfg st)\<lparr>peers := peers (cfg st) @ [zero_peer]\<rparr>,
          have_endpoint := False, have_pubkey := False, have_role := False, have_allowed := False\<rparr>)"
  by (simp only: config_line_def header_lines Let_def)
    (simp add: section_header_def key_table)

section \<open>Values\<close>

definition solid :: "string \<Rightarrow> bool" where
  "solid s \<longleftrightarrow> list_all (\<lambda>c. c \<noteq> NUL \<and> \<not> isspace c) s"

lemma solid_plain: "solid s \<Longrightarrow> plain s"
  by (auto simp: solid_def plain_def list_all_iff isspace_def)

lemma solid_append [simp]: "solid (s @ t) \<longleftrightarrow> solid s \<and> solid t"
  by (simp add: solid_def)

lemma solid_Cons [simp]: "solid (c # s) \<longleftrightarrow> c \<noteq> NUL \<and> \<not> isspace c \<and> solid s" and solid_Nil [simp]: "solid []"
  by (simp_all add: solid_def)

lemma solid_role_name [simp]: "solid (role_name r)"
  by (cases r) (simp_all add: role_name_def isspace_def)

lemma solid_show_nat [simp]: "solid (show_nat n)"
  using show_nat_digits [of n] by (auto simp: solid_def list_all_iff isdigit_def isspace_def)

lemma solid_inet_ntop [simp]: "solid (inet_ntop a)"
  by (simp add: inet_ntop_def Let_def isspace_def)

lemma solid_base64: "base64_text sod \<Longrightarrow> solid (crypto_encode_base64 sod b)"
proof -
  have "list_all (\<lambda>c. c \<noteq> NUL \<and> \<not> isspace c) base64_alphabet" by code_simp
  moreover assume "base64_text sod"
  ultimately show ?thesis
    by (auto simp: solid_def base64_text_def crypto_encode_base64_def list_all_iff)
qed

lemma plain_endpoint: "plain h \<Longrightarrow> h \<noteq> [] \<Longrightarrow> plain (h @ '':'' @ show_nat n)"
  using solid_plain [OF solid_show_nat [of n]] show_nat_digits [of n]
  by (simp add: plain_def)

lemma strtol_range_show:
  "lo \<le> int n \<Longrightarrow> int n \<le> hi \<Longrightarrow> n < 2 ^ 63 \<Longrightarrow> strtol_range lo hi (show_nat n) = Some (int n)"
  by (simp add: strtol_range_def)

lemma no_slash_inet [simp]: "CHR ''/'' \<notin> set (inet_ntop a)"
proof -
  have "CHR ''/'' \<notin> set (show_nat n)" for n
    using show_nat_digits [of n] by (auto simp: list_all_iff isdigit_def)
  then show ?thesis by (simp add: inet_ntop_def Let_def)
qed

lemma length_show_prefix: "k \<le> 32 \<Longrightarrow> length (show_nat k) \<le> 3"
  by (rule show_nat_length_le) simp

lemma parse_cidr_print:
  "k \<le> 32 \<Longrightarrow> parse_cidr (inet_ntop a @ ''/'' @ show_nat k) INET_ADDRSTRLEN INET_ADDRSTRLEN =
     Some (inet_ntop a, inet_ntop (htonl (prefix_mask k)))"
  using inet_ntop_length [of a] inet_ntop_length [of "htonl (prefix_mask k)"] length_show_prefix [of k]
  by (simp add: parse_cidr_def strtol_range_show const_defs)

lemma parse_ip_prefix_print:
  "k \<le> 32 \<Longrightarrow> parse_ip_prefix (inet_ntop a @ ''/'' @ show_nat k) = Some (a, k)"
  using inet_ntop_length [of a] length_show_prefix [of k]
  by (simp add: parse_ip_prefix_def strtol_range_show const_defs)

lemma strtol_port: "(q :: u16) \<noteq> 0 \<Longrightarrow> strtol_range 1 65535 (show_nat (unat q)) = Some (int (unat q))"
proof (rule strtol_range_show)
  assume "q \<noteq> 0"
  then show "1 \<le> int (unat q)" by (metis One_nat_def Suc_leI of_nat_1 of_nat_le_iff unat_gt_0)
  have "unat q < 65536" using unsigned_less [of q, where ?'a = nat] by simp
  then show "int (unat q) \<le> 65535" by linarith
  show "unat q < 2 ^ 63" using \<open>unat q < 65536\<close> by simp
qed

lemma parse_endpoint_print:
  assumes "h \<noteq> []" and "length h < CONFIG_MAX_HOST - 6" and "q \<noteq> 0"
  shows "parse_endpoint_value (h @ '':'' @ show_nat (unat (q :: u16))) CONFIG_MAX_HOST = Some (h, q)"
proof -
  have q: "unat q < 65536" using unsigned_less [of q, where ?'a = nat] by simp
  have "CHR '':'' \<notin> set (show_nat (unat q))"
    using show_nat_digits [of "unat q"] by (auto simp: list_all_iff isdigit_def)
  then have "cut_last CHR '':'' (h @ '':'' @ show_nat (unat q)) = Some (h, show_nat (unat q))"
    by (simp add: cut_last_Some)
  then show ?thesis
    using assms(1,2) strtol_port [OF assms(3)] show_nat_length_5 [OF q]
    by (simp add: parse_endpoint_value_def const_defs)
qed

lemma decode_encode:
  "base64_correct sod \<Longrightarrow> length b = n \<Longrightarrow> crypto_decode_base64 sod (crypto_encode_base64 sod b) n = Some b"
  by (simp add: crypto_decode_base64_def crypto_encode_base64_def base64_correct_def)

section \<open>Whole files\<close>

lemma scan_peer:
  assumes laws: "base64_correct sod" "base64_text sod"
    and p: "peer_printable p" and st: "\<not> peer_incomplete st" "length (peers (cfg st)) < CONFIG_MAX_PEERS"
  shows "scan (config_line sod) n st (map (\<lambda>l. l @ [NL]) (peer_lines sod p)) =
    Inr (st\<lparr>cfg := (cfg st)\<lparr>peers := peers (cfg st) @ [p]\<rparr>, sect := SECTION_PEER,
       have_endpoint := True, have_pubkey := True, have_role := True, have_allowed := True\<rparr>)"
proof -
  have vals: "plain (host p @ '':'' @ show_nat (unat (port p)))"
    "plain (crypto_encode_base64 sod (public_key p))" "plain (role_name (cfg_role p))"
    "plain (inet_ntop (allowed_address p) @ ''/'' @ show_nat (allowed_prefix p))"
    using p laws plain_endpoint [of "host p"]
    by (auto simp: peer_printable_def isspace_def solid_base64 intro: solid_plain)
  note line = config_line_assign [OF key_words(6) vals(1)] config_line_assign [OF key_words(7) vals(2)]
    config_line_assign [OF key_words(8) vals(3)] config_line_assign [OF key_words(9) vals(4)]
  have parse: "parse_endpoint_value (host p @ '':'' @ show_nat (unat (port p))) CONFIG_MAX_HOST = Some (host p, port p)"
    "crypto_decode_base64 sod (crypto_encode_base64 sod (public_key p)) CRYPTO_PUBLIC_KEY_BYTES = Some (public_key p)"
    "parse_ip_prefix (inet_ntop (allowed_address p) @ ''/'' @ show_nat (allowed_prefix p)) =
       Some (allowed_address p, allowed_prefix p)"
    using p laws parse_endpoint_print [of "host p" "port p"] parse_ip_prefix_print [of "allowed_prefix p"]
    by (simp_all add: peer_printable_def decode_encode)
  have role: "peer_key sod s k ''Role'' (role_name (cfg_role p)) =
      Inr (s\<lparr>cfg := upd_cur (\<lambda>c. c\<lparr>cfg_role := cfg_role p\<rparr>) (cfg s), have_role := True\<rparr>)" for s k
    by (cases "cfg_role p") (simp_all add: peer_key_def role_name_def key_table)
  have keys: "peer_key sod s k ''Endpoint'' (host p @ '':'' @ show_nat (unat (port p))) =
      Inr (s\<lparr>cfg := upd_cur (\<lambda>c. c\<lparr>host := host p, port := port p\<rparr>) (cfg s), have_endpoint := True\<rparr>)"
    "peer_key sod s k ''PublicKey'' (crypto_encode_base64 sod (public_key p)) =
      Inr (s\<lparr>cfg := upd_cur (\<lambda>c. c\<lparr>public_key := public_key p\<rparr>) (cfg s), have_pubkey := True\<rparr>)"
    "peer_key sod s k ''AllowedIPs'' (inet_ntop (allowed_address p) @ ''/'' @ show_nat (allowed_prefix p)) =
      Inr (s\<lparr>cfg := upd_cur (\<lambda>c. c\<lparr>allowed_address := allowed_address p, allowed_prefix := allowed_prefix p\<rparr>)
        (cfg s), have_allowed := True\<rparr>)" for s k
    by (simp_all only: peer_key_def key_table if_True if_False parse option.case prod.case)
  show ?thesis
    unfolding peer_lines_def list.map scan.simps config_line_peer [OF st] sum.case line
    by (simp add: role keys [simplified] upd_cur_def zero_peer_def)
qed

lemma scan_peers:
  assumes laws: "base64_correct sod" "base64_text sod"
    and "list_all peer_printable ps" "\<not> peer_incomplete st"
    and "length (peers (cfg st)) + length ps \<le> CONFIG_MAX_PEERS"
  shows "\<exists>st'. scan (config_line sod) n st (map (\<lambda>l. l @ [NL]) (concat (map (peer_lines sod) ps))) = Inr st' \<and>
    cfg st' = (cfg st)\<lparr>peers := peers (cfg st) @ ps\<rparr> \<and> \<not> peer_incomplete st' \<and>
    have_address st' = have_address st"
  using assms(3-)
proof (induction ps arbitrary: n st)
  case (Cons p ps)
  let ?st = "st\<lparr>cfg := (cfg st)\<lparr>peers := peers (cfg st) @ [p]\<rparr>, sect := SECTION_PEER,
       have_endpoint := True, have_pubkey := True, have_role := True, have_allowed := True\<rparr>"
  have "scan (config_line sod) n st (map (\<lambda>l. l @ [NL]) (peer_lines sod p)) = Inr ?st"
    using Cons.prems by (intro scan_peer [OF laws]) simp_all
  moreover have "\<not> peer_incomplete ?st" by (simp add: peer_incomplete_def)
  ultimately show ?case
    using Cons.IH [of ?st "n + length (peer_lines sod p)"] Cons.prems
    by (simp add: scan_append)
qed simp

lemma scan_interface:
  assumes laws: "base64_correct sod" "base64_text sod" and c: "config_printable k c"
  shows "\<exists>st. scan (config_line sod) 1 load_start (map (\<lambda>l. l @ [NL]) (interface_lines sod k c)) = Inr st \<and>
    cfg st = c\<lparr>peers := []\<rparr> \<and> \<not> peer_incomplete st \<and> have_address st"
proof -
  have k: "k \<le> 32" and fits: "config_fits c" and port: "listen_port c \<noteq> 0"
    using c by (simp_all add: config_printable_def)
  obtain a where a: "tun_address c = inet_ntop a" "tun_netmask c = inet_ntop (htonl (prefix_mask k))"
    using c by (auto simp: config_printable_def)
  have vals: "plain (cfg_name c)" "plain (tun_name c)" "plain (tun_address c @ ''/'' @ show_nat k)"
    "plain (show_nat (unat (listen_port c)))" "plain (crypto_encode_base64 sod (private_key c))"
    using c laws a by (auto simp: config_printable_def isspace_def solid_base64 intro: solid_plain)
  note line = config_line_assign [OF key_words(1) vals(1)] config_line_assign [OF key_words(2) vals(2)]
    config_line_assign [OF key_words(3) vals(3)] config_line_assign [OF key_words(4) vals(4)]
    config_line_assign [OF key_words(5) vals(5)]
  have len: "length (cfg_name c) < CONFIG_MAX_NAME" "length (tun_name c) < IFNAMSIZ"
    "length (private_key c) = CRYPTO_SECRET_KEY_BYTES"
    using fits by (simp_all add: config_fits_def)
  have keys: "interface_key sod s i ''Name'' (cfg_name c) = Inr (s\<lparr>cfg := (cfg s)\<lparr>cfg_name := cfg_name c\<rparr>\<rparr>)"
    "interface_key sod s i ''DeviceName'' (tun_name c) = Inr (s\<lparr>cfg := (cfg s)\<lparr>tun_name := tun_name c\<rparr>\<rparr>)"
    "interface_key sod s i ''Address'' (tun_address c @ ''/'' @ show_nat k) =
       Inr (s\<lparr>cfg := (cfg s)\<lparr>tun_address := tun_address c, tun_netmask := tun_netmask c\<rparr>, have_address := True\<rparr>)"
    "interface_key sod s i ''ListenPort'' (show_nat (unat (listen_port c))) =
       Inr (s\<lparr>cfg := (cfg s)\<lparr>listen_port := listen_port c\<rparr>\<rparr>)"
    "interface_key sod s i ''PrivateKey'' (crypto_encode_base64 sod (private_key c)) =
       Inr (s\<lparr>cfg := (cfg s)\<lparr>private_key := private_key c, has_private_key := True\<rparr>\<rparr>)" for s i
    by (simp_all only: interface_key_def key_table if_True if_False a parse_cidr_print [OF k]
        strtol_port [OF port] decode_encode [OF laws(1) len(3)] option.case prod.case)
      (use len in simp_all)
  have start: "\<not> peer_incomplete load_start" by (simp add: peer_incomplete_def load_start_def)
  let ?base = "[''[Interface]'', assign_line ''Name'' (cfg_name c), assign_line ''DeviceName'' (tun_name c),
      assign_line ''Address'' (tun_address c @ ''/'' @ show_nat k),
      assign_line ''ListenPort'' (show_nat (unat (listen_port c)))]"
  let ?st = "load_start\<lparr>sect := SECTION_INTERFACE, have_address := True,
      cfg := default_config\<lparr>cfg_name := cfg_name c, tun_name := tun_name c, tun_address := tun_address c,
        tun_netmask := tun_netmask c, listen_port := listen_port c\<rparr>\<rparr>"
  have base: "scan (config_line sod) 1 load_start (map (\<lambda>l. l @ [NL]) ?base) = Inr ?st"
    unfolding list.map scan.simps config_line_interface [OF start] sum.case line
    by (simp add: keys [simplified] load_start_def)
  obtain n where scan: "scan (config_line sod) 1 load_start (map (\<lambda>l. l @ [NL]) (interface_lines sod k c)) =
      scan (config_line sod) n ?st (map (\<lambda>l. l @ [NL])
        (if has_private_key c then [assign_line ''PrivateKey'' (crypto_encode_base64 sod (private_key c))] else []))"
    unfolding interface_lines_def map_append scan_append base sum.case by blast
  show ?thesis
  proof (cases "has_private_key c")
    case True
    then show ?thesis
      unfolding scan by (simp add: line keys load_start_def default_config_def peer_incomplete_def)
  next
    case False
    with c have "private_key c = replicate CRYPTO_SECRET_KEY_BYTES 0" by (simp add: config_printable_def)
    with False show ?thesis
      unfolding scan by (simp add: load_start_def default_config_def peer_incomplete_def)
  qed
qed

lemma printed_lines_fit:
  assumes laws: "base64_text sod" and c: "config_printable k c" and l: "l \<in> set (config_lines sod k c)"
  shows "NL \<notin> set l \<and> length l \<le> CONFIG_MAX_LINE - 2"
proof -
  have key: "NL \<notin> set (crypto_encode_base64 sod b)" "length (crypto_encode_base64 sod b) \<le> 4 * length b" for b
    using solid_base64 [OF laws, of b] laws
    by (auto simp: solid_def list_all_iff base64_text_def crypto_encode_base64_def)
  have nat: "NL \<notin> set (show_nat n)" "NL \<notin> set (inet_ntop x)" "NL \<notin> set (role_name r)" for n x r
    using solid_plain [OF solid_show_nat [of n]] solid_plain [OF solid_inet_ntop [of x]]
      solid_plain [OF solid_role_name [of r]]
    by (simp_all add: plain_def)
  have role: "length (role_name r) \<le> 9" for r by (cases r) (simp_all add: role_name_def)
  have port: "length (show_nat (unat (q :: u16))) \<le> 5" for q
    using unsigned_less [of q, where ?'a = nat] by (intro show_nat_length_5) simp
  have addr: "length (inet_ntop x) \<le> 16" for x using inet_ntop_length [of x] by simp
  obtain x where x: "tun_address c = inet_ntop x" using c by (auto simp: config_printable_def)
  have c': "k \<le> 32" "plain (cfg_name c)" "plain (tun_name c)"
    "length (cfg_name c) < 64" "length (tun_name c) < 16" "length (private_key c) = 32"
    using c by (simp_all add: config_printable_def config_fits_def const_defs)
  consider "l \<in> set (interface_lines sod k c)" | p where "p \<in> set (peers c)" "l \<in> set (peer_lines sod p)"
    using l by (auto simp: config_lines_def)
  then show ?thesis
  proof cases
    case 1
    then show ?thesis
      using c' key [of "private_key c"] nat port [of "listen_port c"] addr [of x] x length_show_prefix [OF c'(1)]
      by (auto simp: interface_lines_def assign_line_def const_defs plain_def split: if_splits)
  next
    case 2
    with c have p: "peer_printable p" by (simp add: config_printable_def list_all_iff)
    with 2(2) show ?thesis
      using key [of "public_key p"] nat port [of "port p"] addr [of "allowed_address p"] role [of "cfg_role p"]
        length_show_prefix [of "allowed_prefix p"]
      by (auto simp: peer_lines_def peer_printable_def assign_line_def const_defs plain_def)
  qed
qed

lemma config_load_printed:
  assumes laws: "base64_correct sod" "base64_text sod" and c: "config_printable k c"
  shows "config_load sod (Some (config_text sod k c)) = Inr c"
proof -
  have lines: "fgets_all (CONFIG_MAX_LINE - 2) (config_text sod k c) = map (\<lambda>l. l @ [NL]) (config_lines sod k c)"
    unfolding config_text_def by (rule fgets_all_lines) (rule printed_lines_fit [OF laws(2) c])
  obtain st where st: "scan (config_line sod) 1 load_start (map (\<lambda>l. l @ [NL]) (interface_lines sod k c)) = Inr st"
    "cfg st = c\<lparr>peers := []\<rparr>" "\<not> peer_incomplete st" "have_address st"
    using scan_interface [OF laws c] by blast
  have "list_all peer_printable (peers c)" "length (peers (cfg st)) + length (peers c) \<le> CONFIG_MAX_PEERS"
    using c st(2) by (simp_all add: config_printable_def config_fits_def)
  from scan_peers [OF laws this(1) st(3) this(2)] obtain st' where
    st': "scan (config_line sod) (1 + length (interface_lines sod k c)) st
      (map (\<lambda>l. l @ [NL]) (concat (map (peer_lines sod) (peers c)))) = Inr st'"
    "cfg st' = (cfg st)\<lparr>peers := peers (cfg st) @ peers c\<rparr>" "\<not> peer_incomplete st'"
    "have_address st' = have_address st"
    by blast
  have "config_finish st' = Inr c"
    using st st' c by (auto simp: config_finish_def config_printable_def)
  moreover have "scan (config_line sod) 1 load_start (map (\<lambda>l. l @ [NL]) (config_lines sod k c)) = Inr st'"
    using st(1) st'(1) by (simp add: config_lines_def scan_append)
  ultimately show ?thesis
    by (simp add: config_load_def lines)
qed

section \<open>Properties\<close>

definition demo_config :: config where
  "demo_config =
     \<lparr>cfg_name = ''peer1'', tun_name = ''edgar0'', tun_address = inet_ntop (load32 [10, 0, 0, 1]),
      tun_netmask = inet_ntop (htonl (prefix_mask 24)), listen_port = 51820, has_private_key = True,
      private_key = replicate 32 7,
      peers = [\<lparr>host = ''peer2'', port = 51820, public_key = replicate 32 9,
        cfg_role = CRYPTO_ROLE_RESPONDER, allowed_address = load32 [10, 0, 0, 2], allowed_prefix = 32\<rparr>]\<rparr>"

lemma demo_config_printable: "config_printable 24 demo_config"
  using inet_ntop_length
  by (auto simp: config_printable_def demo_config_def config_fits_def peer_printable_def peer_fits_def
      plain_def isspace_def const_defs)

text \<open>C18. Round trip of the file format: every configuration that fits the program's structures,
  written out as the documentation describes (\<open>[Interface]\<close> with its keys, then the \<open>[Peer]\<close>
  sections, in \<open>key = value\<close> lines), is loaded back by \<open>config_load\<close> exactly as it was.\<close>

theorem config_print_load_roundtrip:
  assumes "base64_correct sod" and "base64_text sod" and "config_printable k c"
  shows "config_load sod (Some (config_text sod k c)) = Inr c"
  using assms by (rule config_load_printed)

theorem config_print_load_roundtrip_witness:
  "config_load demo_sodium (Some (config_text demo_sodium 24 demo_config)) = Inr demo_config"
  by (rule config_print_load_roundtrip [OF demo_base64_correct demo_base64_text demo_config_printable])

text \<open>C23. A loaded configuration fits the fixed arrays of \<open>edgarvpn_config_t\<close>: names, device name,
  addresses, hosts and keys leave room for their terminators, there are at most eight peers, and
  every prefix length is at most 32. Moreover the device name and every host are non-empty, the
  ports are non-zero, a private key is present as soon as there is a peer, and the address and the
  netmask are dotted quads that \<open>inet_pton\<close> accepts.\<close>

theorem config_load_fits:
  assumes "config_load sod contents = Inr c"
  shows "config_fits c \<and> tun_name c \<noteq> [] \<and> listen_port c \<noteq> 0 \<and>
    (peers c \<noteq> [] \<longrightarrow> has_private_key c) \<and>
    (\<forall>p \<in> set (peers c). host p \<noteq> [] \<and> port p \<noteq> 0) \<and>
    inet_pton (tun_address c) \<noteq> None \<and>
    (\<exists>k \<le> 32. inet_pton (tun_netmask c) = Some (htonl (prefix_mask k)))"
  using assms by (rule config_load_valid)

theorem config_load_fits_witness:
  "length (peers demo_config) = 1 \<and> config_fits demo_config"
  using config_load_fits [OF config_load_printed [OF demo_base64_correct demo_base64_text demo_config_printable]]
  by (simp add: demo_config_def)

text \<open>C26. Nothing in a loaded configuration is made up: each peer's endpoint, public key, role and
  allowed range are the parsed values of \<open>Endpoint\<close>, \<open>PublicKey\<close>, \<open>Role\<close> and \<open>AllowedIPs\<close>
  lines of the file, so no peer is left with a zeroed key or range; the address, the private key
  and, unless they have their documented defaults, the name, the device name and the port are too.\<close>

theorem config_load_provenance:
  assumes "config_load sod (Some text) = Inr c"
  shows "let L = set (fgets_all (CONFIG_MAX_LINE - 2) text) in
    list_all (peer_configured sod L) (peers c) \<and> address_given L c \<and>
    (tun_name c = CONFIG_DEFAULT_DEVICE \<or> given L ''DeviceName'' (\<lambda>v. v = tun_name c)) \<and>
    (cfg_name c = ''unnamed-peer'' \<or> given L ''Name'' (\<lambda>v. v = cfg_name c)) \<and>
    (listen_port c = CONFIG_DEFAULT_PORT \<or>
       given L ''ListenPort'' (\<lambda>v. strtol_range 1 65535 v = Some (uint (listen_port c)))) \<and>
    (has_private_key c \<longrightarrow>
       given L ''PrivateKey'' (\<lambda>v. crypto_decode_base64 sod v CRYPTO_SECRET_KEY_BYTES = Some (private_key c)))"
  unfolding Let_def by (rule config_load_configured [OF assms])

theorem config_load_provenance_witness:
  "list_all (peer_configured demo_sodium (set (fgets_all (CONFIG_MAX_LINE - 2)
     (config_text demo_sodium 24 demo_config)))) (peers demo_config)"
  using config_load_provenance [OF config_load_printed [OF demo_base64_correct demo_base64_text demo_config_printable]]
  unfolding Let_def by blast



text \<open>C40. A long comment is not one comment: \<open>fgets\<close> delivers a comment line of more than 511
  characters in pieces, and each further piece is parsed as a line of its own. A file that starts
  with such a comment is rejected when the rest of the comment is not \<open>key = value\<close>, and its text
  takes effect when it is.\<close>

theorem long_comment_is_parsed:
  assumes "NL \<notin> set comment" and "length comment = CONFIG_MAX_LINE - 2"
    and "NL \<notin> set rest" and "rest \<noteq> []" and "length rest \<le> CONFIG_MAX_LINE - 2"
  shows "fgets_all (CONFIG_MAX_LINE - 2) (CHR ''#'' # comment @ rest @ NL # others) =
      (CHR ''#'' # comment) # (rest @ [NL]) # fgets_all (CONFIG_MAX_LINE - 2) others \<and>
    config_load sod (Some (CHR ''#'' # comment @ rest @ NL # others)) =
      (case scan (config_line sod) 2 load_start ((rest @ [NL]) # fgets_all (CONFIG_MAX_LINE - 2) others) of
         Inl e \<Rightarrow> Inl e | Inr st \<Rightarrow> config_finish st)"
proof -
  have first: "fgets (Suc (CONFIG_MAX_LINE - 2)) (CHR ''#'' # comment @ rest @ NL # others) =
      (CHR ''#'' # comment, rest @ NL # others)"
    using fgets_full [of "CHR ''#'' # comment" "rest @ NL # others"] assms(1,2) by simp
  have chunks: "fgets_all (CONFIG_MAX_LINE - 2) (CHR ''#'' # comment @ rest @ NL # others) =
      (CHR ''#'' # comment) # (rest @ [NL]) # fgets_all (CONFIG_MAX_LINE - 2) others"
    using first fgets_line [OF assms(3,5), of others]
    by (subst fgets_all.simps, simp, subst fgets_all.simps, simp)
  have "config_line sod load_start 1 (CHR ''#'' # comment) = Inr load_start"
    by (rule config_line_comment)
  then show ?thesis
    by (simp add: config_load_def chunks del: scan.simps(2)) (simp add: numeral_2_eq_2)
qed

theorem long_comment_is_parsed_witness:
  "config_load demo_sodium (Some (CHR ''#'' # replicate 510 CHR ''x'' @ ''tail'' @ [NL])) =
     Inl (ExpectedKeyValue 2)"
proof -
  have "config_line demo_sodium load_start 2 (''tail'' @ [NL]) = Inl (ExpectedKeyValue 2)"
    by (simp add: config_line_def cstr_def trim_def isspace_def key_value_def)
  then show ?thesis
    using long_comment_is_parsed [of "replicate 510 CHR ''x''" "''tail''" "[]" demo_sodium]
    by (simp add: const_defs)
qed

end
