(* ===== verification/Routing.thy ===== *)
theory Routing
  imports Config_Roundtrip
begin

text \<open>
  Choosing the peer for an outbound packet (\<open>src/src/routing.c\<close>): the destination of a raw IPv4
  packet, the masked comparison of two addresses, and the first configured peer whose
  \<open>AllowedIPs\<close> range covers the destination. Addresses are \<open>s_addr\<close> values; the lemmas relate the
  masked comparison to the leading bits of the address in host order.
\<close>

section \<open>Operations\<close>

definition routing_parse_ipv4_dest :: "bytes \<Rightarrow> u32 option" where
  "routing_parse_ipv4_dest packet =
     (if length packet < 20 then None
      else if drop_bit 4 (packet ! 0) \<noteq> 4 then None
      else Some (load32 (take 4 (drop 16 packet))))"

definition routing_matches :: "u32 \<Rightarrow> u32 \<Rightarrow> nat \<Rightarrow> bool" where
  "routing_matches addr network prefix =
     (let m = (if prefix = 0 then 0 else htonl (push_bit (32 - prefix) (NOT 0)))
      in addr AND m = network AND m)"

fun find_from :: "nat \<Rightarrow> config_peer list \<Rightarrow> u32 \<Rightarrow> int" where
  "find_from i [] dest = -1"
| "find_from i (p # ps) dest =
     (if routing_matches dest (allowed_address p) (allowed_prefix p) then int i
      else find_from (Suc i) ps dest)"

definition routing_find_peer_for_dest :: "config \<Rightarrow> u32 \<Rightarrow> int" where
  "routing_find_peer_for_dest c dest = find_from 0 (peers c) dest"

section \<open>Specification\<close>

text \<open>The first \<open>prefix\<close> bits of an address, in the order they are written.\<close>

definition network_bits :: "nat \<Rightarrow> u32 \<Rightarrow> bool list" where
  "network_bits prefix a = map (\<lambda>i. bit (htonl a) (31 - i)) [0..<prefix]"

text \<open>The peer's range covers the destination.\<close>

definition covers :: "config_peer \<Rightarrow> u32 \<Rightarrow> bool" where
  "covers p dest \<longleftrightarrow> network_bits (allowed_prefix p) dest = network_bits (allowed_prefix p) (allowed_address p)"

section \<open>Lemmas\<close>

lemma htonl_and: "htonl (a AND b) = htonl a AND htonl b"
  by (rule bit_word_eqI) (auto simp: bit_htonl bit_and_iff)

lemma htonl_0 [simp]: "htonl 0 = 0"
  by (rule bit_word_eqI) (simp add: bit_htonl)

lemma htonl_eq_iff: "htonl a = htonl b \<longleftrightarrow> a = b"
  by (metis htonl_htonl)

lemma bit_prefix_mask:
  "k \<le> 32 \<Longrightarrow> bit (prefix_mask k) n \<longleftrightarrow> 32 - k \<le> n \<and> n < 32"
  by (cases "k = 0") (auto simp: prefix_mask_def bit_simps)

lemma routing_matches_host:
  "routing_matches a b k \<longleftrightarrow> htonl a AND prefix_mask k = htonl b AND prefix_mask k"
proof -
  have "routing_matches a b k \<longleftrightarrow> a AND htonl (prefix_mask k) = b AND htonl (prefix_mask k)"
    by (cases "k = 0") (simp_all add: routing_matches_def prefix_mask_def Let_def)
  also have "\<dots> \<longleftrightarrow> htonl (a AND htonl (prefix_mask k)) = htonl (b AND htonl (prefix_mask k))"
    by (simp only: htonl_eq_iff)
  finally show ?thesis by (simp add: htonl_and)
qed

lemma routing_matches_bits:
  assumes "k \<le> 32"
  shows "routing_matches a b k \<longleftrightarrow> network_bits k a = network_bits k b"
proof -
  have "routing_matches a b k \<longleftrightarrow> (\<forall>n. 32 - k \<le> n \<and> n < 32 \<longrightarrow> bit (htonl a) n = bit (htonl b) n)"
    unfolding routing_matches_host bit_eq_iff
    using assms by (auto simp: bit_and_iff bit_prefix_mask)
  also have "\<dots> \<longleftrightarrow> (\<forall>i < k. bit (htonl a) (31 - i) = bit (htonl b) (31 - i))"
  proof
    assume r: "\<forall>i < k. bit (htonl a) (31 - i) = bit (htonl b) (31 - i)"
    have "bit (htonl a) n = bit (htonl b) n" if "32 - k \<le> n \<and> n < 32" for n
    proof -
      have "31 - n < k" "31 - (31 - n) = n" using that assms by auto
      with r show ?thesis by metis
    qed
    then show "\<forall>n. 32 - k \<le> n \<and> n < 32 \<longrightarrow> bit (htonl a) n = bit (htonl b) n" by blast
  next
    assume l: "\<forall>n. 32 - k \<le> n \<and> n < 32 \<longrightarrow> bit (htonl a) n = bit (htonl b) n"
    have "32 - k \<le> 31 - i \<and> 31 - i < 32" if "i < k" for i using that assms by arith
    with l show "\<forall>i < k. bit (htonl a) (31 - i) = bit (htonl b) (31 - i)" by blast
  qed
  finally show ?thesis by (auto simp: network_bits_def)
qed

lemma find_from_spec:
  "find_from i ps d =
     (if \<exists>p \<in> set ps. routing_matches d (allowed_address p) (allowed_prefix p)
      then int (i + length (takeWhile (\<lambda>p. \<not> routing_matches d (allowed_address p) (allowed_prefix p)) ps))
      else -1)"
  by (induction ps arbitrary: i) auto

lemma first_hit:
  assumes "\<exists>x \<in> set xs. P x"
  shows "length (takeWhile (\<lambda>x. \<not> P x) xs) < length xs \<and> P (xs ! length (takeWhile (\<lambda>x. \<not> P x) xs)) \<and>
    (\<forall>j < length (takeWhile (\<lambda>x. \<not> P x) xs). \<not> P (xs ! j))"
  using assms
proof (induction xs)
  case (Cons x xs)
  then show ?case
    by (cases "P x") (auto simp: less_Suc_eq_0_disj)
qed simp

lemma find_peer_first:
  assumes fits: "config_fits c"
  shows "case routing_find_peer_for_dest c dest of i \<Rightarrow>
    (i = -1 \<and> (\<forall>p \<in> set (peers c). \<not> covers p dest)) \<or>
    (0 \<le> i \<and> nat i < length (peers c) \<and> nat i < CONFIG_MAX_PEERS \<and> covers (peers c ! nat i) dest \<and>
     (\<forall>j < nat i. \<not> covers (peers c ! j) dest))"
proof -
  let ?m = "\<lambda>p. routing_matches dest (allowed_address p) (allowed_prefix p)"
  have m: "?m p \<longleftrightarrow> covers p dest" if "p \<in> set (peers c)" for p
    using fits that by (auto simp: covers_def config_fits_def list_all_iff peer_fits_def routing_matches_bits)
  show ?thesis
  proof (cases "\<exists>p \<in> set (peers c). ?m p")
    case True
    let ?i = "length (takeWhile (\<lambda>p. \<not> ?m p) (peers c))"
    have i: "routing_find_peer_for_dest c dest = int ?i"
      using True by (simp add: routing_find_peer_for_dest_def find_from_spec)
    note hit = first_hit [OF True]
    have m': "?m (peers c ! j) \<longleftrightarrow> covers (peers c ! j) dest" if "j \<le> ?i" for j
      by (rule m) (use that hit in simp)
    then have "covers (peers c ! ?i) dest" "\<forall>j < ?i. \<not> covers (peers c ! j) dest"
      using hit by auto
    moreover have "?i < CONFIG_MAX_PEERS" using hit fits by (simp add: config_fits_def)
    ultimately show ?thesis using hit by (simp add: i)
  next
    case False
    then have "routing_find_peer_for_dest c dest = -1"
      by (simp add: routing_find_peer_for_dest_def find_from_spec)
    with False m show ?thesis by auto
  qed
qed

text \<open>An outbound packet with destination \<open>d\<close> and any payload.\<close>

definition ipv4_packet :: "bytes \<Rightarrow> u32 \<Rightarrow> bytes \<Rightarrow> bytes" where
  "ipv4_packet head d payload = head @ store32 d @ payload"

section \<open>Properties\<close>

text \<open>C28. The masked comparison is prefix matching: for prefix lengths up to 32,
  \<open>routing_matches\<close> holds exactly when the two addresses agree on their first \<open>prefix\<close> bits as
  written, so every address matches \<open>/0\<close> and \<open>/32\<close> matches the address alone.\<close>

theorem routing_matches_prefix:
  assumes "k \<le> 32"
  shows "routing_matches addr network k \<longleftrightarrow> network_bits k addr = network_bits k network"
  using assms by (rule routing_matches_bits)

theorem routing_matches_prefix_witness:
  "routing_matches (load32 [10, 0, 0, 77]) (load32 [10, 0, 0, 1]) 24 =
     (network_bits 24 (load32 [10, 0, 0, 77]) = network_bits 24 (load32 [10, 0, 0, 1])) \<and>
   routing_matches (load32 [10, 0, 0, 77]) (load32 [10, 0, 0, 1]) 24 \<and>
   \<not> routing_matches (load32 [10, 0, 1, 77]) (load32 [10, 0, 0, 1]) 24"
  using routing_matches_prefix [of 24 "load32 [10, 0, 0, 77]" "load32 [10, 0, 0, 1]"]
  by (simp, code_simp)

text \<open>C27. The route taken is the first configured peer whose range covers the destination, and
  there is no route exactly when no peer's range does; the index returned is always that of a
  configured peer. Stated for every configuration \<open>config_load\<close> can produce.\<close>

theorem route_is_first_match:
  assumes "config_load sod contents = Inr c"
  shows "case routing_find_peer_for_dest c dest of i \<Rightarrow>
    (i = -1 \<and> (\<forall>p \<in> set (peers c). \<not> covers p dest)) \<or>
    (0 \<le> i \<and> nat i < length (peers c) \<and> nat i < CONFIG_MAX_PEERS \<and> covers (peers c ! nat i) dest \<and>
     (\<forall>j < nat i. \<not> covers (peers c ! j) dest))"
  by (rule find_peer_first) (use config_load_valid [OF assms] in simp)

theorem route_is_first_match_witness:
  "routing_find_peer_for_dest demo_config (load32 [10, 0, 0, 2]) = 0 \<and>
   covers (peers demo_config ! 0) (load32 [10, 0, 0, 2])"
proof -
  have i: "routing_find_peer_for_dest demo_config (load32 [10, 0, 0, 2]) = 0"
    by (simp add: routing_find_peer_for_dest_def demo_config_def routing_matches_def)
  with route_is_first_match [OF config_load_printed [OF demo_base64_correct demo_base64_text demo_config_printable],
      of "load32 [10, 0, 0, 2]"]
  show ?thesis by simp
qed

text \<open>Reading the destination: a packet that starts with a 16-byte header prefix of version 4
  and carries the destination address next yields that address; packets shorter than a minimal
  header and packets of any other version are refused.\<close>

theorem parse_dest_reads_header:
  "length head = 16 \<Longrightarrow>
     routing_parse_ipv4_dest (ipv4_packet head d payload) =
       (if drop_bit 4 (head ! 0) = 4 then Some d else None) \<and>
     (length short < 20 \<longrightarrow> routing_parse_ipv4_dest short = None)"
  by (simp add: routing_parse_ipv4_dest_def ipv4_packet_def nth_append address.dec_framed)

theorem parse_dest_reads_header_witness:
  "routing_parse_ipv4_dest (ipv4_packet (0x45 # replicate 15 0) 7 [1, 2, 3]) = Some 7"
  using parse_dest_reads_header [of "0x45 # replicate 15 0" 7 "[1, 2, 3]" "[]"] by simp

end
