(* ===== verification/Log.thy ===== *)
theory Log
  imports CLib
begin

text \<open>
  Levelled logging (\<open>src/src/log.c\<close>, \<open>src/include/log.h\<close>). The three static variables are
  the record \<open>log_state\<close>; \<open>getenv\<close> is the argument \<open>env\<close>, the clock reading the argument
  \<open>secs\<close> (seconds since the epoch). \<open>log_at\<close> takes the message as \<open>vsnprintf\<close> would format it
  without a limit and truncates it to the buffer; it returns the stream written to and the
  bytes written, or nothing when the level is filtered. \<open>json_object\<close> is a reference reader for
  the JSON the lines claim to be.
\<close>

section \<open>Data\<close>

datatype log_level = LOG_LEVEL_DEBUG | LOG_LEVEL_INFO | LOG_LEVEL_WARN | LOG_LEVEL_ERROR

fun level_rank :: "log_level \<Rightarrow> nat" where
  "level_rank LOG_LEVEL_DEBUG = 0"
| "level_rank LOG_LEVEL_INFO = 1"
| "level_rank LOG_LEVEL_WARN = 2"
| "level_rank LOG_LEVEL_ERROR = 3"

lemma level_rank_inject: "level_rank a = level_rank b \<longleftrightarrow> a = b"
  by (cases a; cases b) simp_all

instantiation log_level :: linorder
begin

definition less_eq_log_level :: "log_level \<Rightarrow> log_level \<Rightarrow> bool" where
  "a \<le> b \<longleftrightarrow> level_rank a \<le> level_rank b"

definition less_log_level :: "log_level \<Rightarrow> log_level \<Rightarrow> bool" where
  "a < b \<longleftrightarrow> level_rank a < level_rank b"

instance
  by standard (auto simp: less_eq_log_level_def less_log_level_def level_rank_inject)

end

datatype log_format = LOG_FORMAT_TEXT | LOG_FORMAT_JSON

datatype stream = Stdout | Stderr

record log_state =
  g_level :: log_level
  g_format :: log_format
  g_initialized :: bool

definition log_start :: log_state where
  "log_start = \<lparr>g_level = LOG_LEVEL_INFO, g_format = LOG_FORMAT_TEXT, g_initialized = False\<rparr>"

type_synonym env = "string \<Rightarrow> string option"

section \<open>Operations\<close>

definition log_init :: "env \<Rightarrow> log_state \<Rightarrow> log_state" where
  "log_init env st =
     (let st1 = st\<lparr>g_level := LOG_LEVEL_INFO, g_format := LOG_FORMAT_TEXT\<rparr>;
          st2 = (case env ''LOG_LEVEL'' of
             None \<Rightarrow> st1
           | Some v \<Rightarrow>
               if strcaseeq v ''debug'' then st1\<lparr>g_level := LOG_LEVEL_DEBUG\<rparr>
               else if strcaseeq v ''info'' then st1\<lparr>g_level := LOG_LEVEL_INFO\<rparr>
               else if strcaseeq v ''warn'' then st1\<lparr>g_level := LOG_LEVEL_WARN\<rparr>
               else if strcaseeq v ''error'' then st1\<lparr>g_level := LOG_LEVEL_ERROR\<rparr>
               else st1);
          st3 = (case env ''LOG_FORMAT'' of
             None \<Rightarrow> st2
           | Some v \<Rightarrow> if strcaseeq v ''json'' then st2\<lparr>g_format := LOG_FORMAT_JSON\<rparr> else st2)
      in st3\<lparr>g_initialized := True\<rparr>)"

definition ensure_initialized :: "env \<Rightarrow> log_state \<Rightarrow> log_state" where
  "ensure_initialized env st = (if \<not> g_initialized st then log_init env st else st)"

definition log_level_enabled :: "env \<Rightarrow> log_state \<Rightarrow> log_level \<Rightarrow> log_state \<times> bool" where
  "log_level_enabled env st level =
     (let st' = ensure_initialized env st in (st', g_level st' \<le> level))"

fun level_name :: "log_level \<Rightarrow> string" where
  "level_name LOG_LEVEL_DEBUG = ''DEBUG''"
| "level_name LOG_LEVEL_INFO = ''INFO''"
| "level_name LOG_LEVEL_WARN = ''WARN''"
| "level_name LOG_LEVEL_ERROR = ''ERROR''"

text \<open>\<open>gmtime_r\<close>: the year and the day in it, then the month and the day in it.\<close>

definition leap :: "nat \<Rightarrow> bool" where
  "leap y \<longleftrightarrow> y mod 4 = 0 \<and> (y mod 100 \<noteq> 0 \<or> y mod 400 = 0)"

definition year_days :: "nat \<Rightarrow> nat" where
  "year_days y = (if leap y then 366 else 365)"

lemma year_days_pos: "0 < year_days y"
  by (simp add: year_days_def)

function year_of :: "nat \<Rightarrow> nat \<Rightarrow> nat \<times> nat" where
  "year_of y d = (if d < year_days y then (y, d) else year_of (Suc y) (d - year_days y))"
  by pat_completeness auto
termination
  by (relation "measure snd") (use year_days_pos in \<open>auto simp: not_less intro: diff_less order_less_le_trans\<close>)

declare year_of.simps [simp del]

definition month_days :: "nat \<Rightarrow> nat list" where
  "month_days y = [31, if leap y then 29 else 28, 31, 30, 31, 30, 31, 31, 30, 31, 30, 31]"

fun month_of :: "nat \<Rightarrow> nat list \<Rightarrow> nat \<Rightarrow> nat \<times> nat" where
  "month_of m [] d = (m, d)"
| "month_of m (l # ls) d = (if d < l then (m, d) else month_of (Suc m) ls (d - l))"

text \<open>\<open>strftime\<close> with \<open>%Y-%m-%dT%H:%M:%SZ\<close>.\<close>

definition pad2 :: "nat \<Rightarrow> string" where
  "pad2 n = (if n < 10 then CHR ''0'' # show_nat n else show_nat n)"

definition format_timestamp :: "nat \<Rightarrow> string" where
  "format_timestamp secs =
     (let (y, yd) = year_of 1970 (secs div 86400);
          (mon, md) = month_of 1 (month_days y) yd;
          t = secs mod 86400
      in show_nat y @ ''-'' @ pad2 mon @ ''-'' @ pad2 (md + 1) @ ''T'' @
         pad2 (t div 3600) @ '':'' @ pad2 (t mod 3600 div 60) @ '':'' @ pad2 (t mod 60) @ ''Z'')"

abbreviation QUOTE :: char where "QUOTE \<equiv> CHR 0x22"
abbreviation BACKSLASH :: char where "BACKSLASH \<equiv> CHR 0x5C"

definition hex_digit :: "nat \<Rightarrow> char" where
  "hex_digit d = (if d < 10 then char_of (48 + d) else char_of (87 + d))"

definition json_escape_char :: "char \<Rightarrow> string" where
  "json_escape_char c =
     (if c = QUOTE then [BACKSLASH, QUOTE]
      else if c = BACKSLASH then [BACKSLASH, BACKSLASH]
      else if c = NL then [BACKSLASH, CHR ''n'']
      else if c = CHR 0x0D then [BACKSLASH, CHR ''r'']
      else if c = CHR 0x09 then [BACKSLASH, CHR ''t'']
      else if (of_char c :: nat) < 0x20 then
        [BACKSLASH, CHR ''u'', CHR ''0'', CHR ''0'', hex_digit (of_char c div 16), hex_digit (of_char c mod 16)]
      else [c])"

definition write_json_escaped :: "string \<Rightarrow> string" where
  "write_json_escaped text = concat (map json_escape_char text)"

definition pad_right :: "nat \<Rightarrow> string \<Rightarrow> string" where
  "pad_right n s = s @ replicate (n - length s) CHR '' ''"

definition quoted :: "string \<Rightarrow> string" where
  "quoted s = QUOTE # s @ [QUOTE]"

definition emit :: "log_state \<Rightarrow> nat \<Rightarrow> log_level \<Rightarrow> string \<Rightarrow> string \<Rightarrow> stream \<times> string" where
  "emit st secs level cmp message =
     (let timestamp = format_timestamp secs;
          out = (if LOG_LEVEL_WARN \<le> level then Stderr else Stdout)
      in if g_format st = LOG_FORMAT_JSON then
           (out, ''{'' @ quoted ''time'' @ '':'' @ quoted timestamp @ '','' @
                 quoted ''level'' @ '':'' @ quoted (level_name level) @ '','' @
                 quoted ''component'' @ '':'' @ quoted (write_json_escaped cmp) @ '','' @
                 quoted ''message'' @ '':'' @ quoted (write_json_escaped message) @ ''}'' @ [NL])
         else
           (out, timestamp @ '' '' @ pad_right 5 (level_name level) @ '' ['' @ cmp @ ''] '' @ message @ [NL]))"

definition LOG_MESSAGE_BYTES :: nat where [const_defs]: "LOG_MESSAGE_BYTES = 1024"

definition log_at ::
  "env \<Rightarrow> log_state \<Rightarrow> nat \<Rightarrow> log_level \<Rightarrow> string \<Rightarrow> string \<Rightarrow> log_state \<times> (stream \<times> string) option" where
  "log_at env st secs level cmp formatted =
     (case log_level_enabled env st level of (st', enabled) \<Rightarrow>
        if \<not> enabled then (st', None)
        else (st', Some (emit st' secs level cmp (take (LOG_MESSAGE_BYTES - 1) formatted))))"

definition log_debug where "log_debug env st secs = log_at env st secs LOG_LEVEL_DEBUG"
definition log_info where "log_info env st secs = log_at env st secs LOG_LEVEL_INFO"
definition log_warn where "log_warn env st secs = log_at env st secs LOG_LEVEL_WARN"
definition log_error where "log_error env st secs = log_at env st secs LOG_LEVEL_ERROR"

section \<open>A reference reader for JSON strings and flat objects\<close>

definition hex_val :: "char \<Rightarrow> nat option" where
  "hex_val c =
     (let n = of_char c in
        if 48 \<le> n \<and> n \<le> 57 then Some (n - 48)
        else if 97 \<le> n \<and> n \<le> 102 then Some (n - 87)
        else if 65 \<le> n \<and> n \<le> 70 then Some (n - 55)
        else None)"

definition json_unicode :: "char \<Rightarrow> char \<Rightarrow> char \<Rightarrow> char \<Rightarrow> char option" where
  "json_unicode a b c d =
     (case (hex_val a, hex_val b, hex_val c, hex_val d) of
        (Some w, Some x, Some y, Some z) \<Rightarrow>
          (let n = 4096 * w + 256 * x + 16 * y + z in if n < 256 then Some (char_of n) else None)
      | _ \<Rightarrow> None)"

text \<open>The characters up to the closing quote, and what follows it; raw control characters are
  an error.\<close>

fun json_string :: "string \<Rightarrow> (string \<times> string) option" where
  "json_string [] = None"
| "json_string (c # s) =
     (if c = QUOTE then Some ([], s)
      else if c = BACKSLASH then
        (case s of
           [] \<Rightarrow> None
         | e # t \<Rightarrow>
             if e = QUOTE \<or> e = BACKSLASH then map_option (apfst (Cons e)) (json_string t)
             else if e = CHR ''n'' then map_option (apfst (Cons NL)) (json_string t)
             else if e = CHR ''r'' then map_option (apfst (Cons CHR 0x0D)) (json_string t)
             else if e = CHR ''t'' then map_option (apfst (Cons CHR 0x09)) (json_string t)
             else if e = CHR ''u'' then
               (case t of
                  u1 # u2 # u3 # u4 # v \<Rightarrow>
                    (case json_unicode u1 u2 u3 u4 of
                       None \<Rightarrow> None
                     | Some x \<Rightarrow> map_option (apfst (Cons x)) (json_string v))
                | _ \<Rightarrow> None)
             else None)
      else if (of_char c :: nat) < 0x20 then None
      else map_option (apfst (Cons c)) (json_string s))"

fun json_members :: "nat \<Rightarrow> string \<Rightarrow> ((string \<times> string) list \<times> string) option" where
  "json_members 0 s = None"
| "json_members (Suc n) s =
     (case s of
        q # s1 \<Rightarrow>
          if q \<noteq> QUOTE then None
          else (case json_string s1 of
            Some (key, co # q2 # s2) \<Rightarrow>
              if co \<noteq> CHR '':'' \<or> q2 \<noteq> QUOTE then None
              else (case json_string s2 of
                Some (val, sep # s3) \<Rightarrow>
                  if sep = CHR '','' then map_option (apfst (Cons (key, val))) (json_members n s3)
                  else if sep = CHR ''}'' then Some ([(key, val)], s3)
                  else None
              | _ \<Rightarrow> None)
          | _ \<Rightarrow> None)
      | [] \<Rightarrow> None)"

definition json_object :: "string \<Rightarrow> ((string \<times> string) list \<times> string) option" where
  "json_object s = (case s of c # t \<Rightarrow> if c = CHR ''{'' then json_members (length t) t else None | [] \<Rightarrow> None)"

section \<open>Lemmas: escaping\<close>

lemma hex_val_digit: "d < 16 \<Longrightarrow> hex_val (hex_digit d) = Some d"
  by (auto simp: hex_digit_def hex_val_def Let_def of_char_of)

lemma json_unicode_digit:
  assumes "(of_char c :: nat) < 0x20"
  shows "json_unicode CHR ''0'' CHR ''0'' (hex_digit (of_char c div 16)) (hex_digit (of_char c mod 16)) = Some c"
proof -
  have "(of_char c :: nat) div 16 < 16" "(of_char c :: nat) mod 16 < 16" using assms by simp_all
  moreover have "hex_val CHR ''0'' = Some 0" by (simp add: hex_val_def)
  moreover have "16 * ((of_char c :: nat) div 16) + of_char c mod 16 = of_char c" by simp
  ultimately show ?thesis using assms
    by (simp add: json_unicode_def hex_val_digit)
qed

lemma json_string_escape_char:
  "json_string (json_escape_char c @ s) = map_option (apfst (Cons c)) (json_string s)"
  by (auto simp: json_escape_char_def json_unicode_digit)

lemma json_string_escaped:
  "json_string (write_json_escaped t @ QUOTE # s) = Some (t, s)"
  by (induction t) (simp_all add: write_json_escaped_def json_string_escape_char)

text \<open>Text without quotes, backslashes and control characters is read as it is.\<close>

definition json_plain :: "string \<Rightarrow> bool" where
  "json_plain s \<longleftrightarrow> list_all (\<lambda>c. c \<noteq> QUOTE \<and> c \<noteq> BACKSLASH \<and> 0x20 \<le> (of_char c :: nat)) s"

lemma json_plain_append [simp]: "json_plain (s @ t) \<longleftrightarrow> json_plain s \<and> json_plain t"
  by (simp add: json_plain_def)

lemma json_plain_Cons [simp]:
  "json_plain (c # s) \<longleftrightarrow> c \<noteq> QUOTE \<and> c \<noteq> BACKSLASH \<and> 0x20 \<le> (of_char c :: nat) \<and> json_plain s"
  by (simp add: json_plain_def)

lemma json_plain_Nil [simp]: "json_plain []"
  by (simp add: json_plain_def)

lemma json_string_plain: "json_plain p \<Longrightarrow> json_string (p @ QUOTE # s) = Some (p, s)"
  by (induction p) simp_all

lemma json_plain_show_nat [simp]: "json_plain (show_nat n)"
  using show_nat_digits [of n] by (auto simp: json_plain_def list_all_iff isdigit_def)

lemma json_plain_timestamp: "json_plain (format_timestamp secs)"
  by (simp add: format_timestamp_def pad2_def Let_def split: prod.split)

lemma json_plain_level: "json_plain (level_name l)"
  by (cases l) simp_all

lemma json_escape_raw: "c \<in> set (write_json_escaped t) \<Longrightarrow> 0x20 \<le> (of_char c :: nat)"
proof -
  have "0x20 \<le> (of_char c :: nat)" if "c \<in> set (json_escape_char d)" for c d
  proof -
    have "0x20 \<le> (of_char (hex_digit n) :: nat)" if "n < 16" for n
      using that by (auto simp: hex_digit_def of_char_of)
    from this [of "of_char d div 16"] this [of "of_char d mod 16"] that show ?thesis
      by (auto simp: json_escape_char_def not_less split: if_splits)
  qed
  then show "c \<in> set (write_json_escaped t) \<Longrightarrow> 0x20 \<le> (of_char c :: nat)"
    by (auto simp: write_json_escaped_def)
qed

lemma json_members_Cons:
  assumes "json_plain k" and "json_string (v' @ QUOTE # CHR '','' # r) = Some (v, CHR '','' # r)"
  shows "json_members (Suc n) (quoted k @ '':'' @ quoted v' @ '','' @ r) =
    map_option (apfst (Cons (k, v))) (json_members n r)"
  using assms json_string_plain [OF assms(1)] by (simp add: quoted_def)

lemma json_members_last:
  assumes "json_plain k" and "json_string (v' @ QUOTE # CHR ''}'' # r) = Some (v, CHR ''}'' # r)"
  shows "json_members (Suc n) (quoted k @ '':'' @ quoted v' @ ''}'' @ r) = Some ([(k, v)], r)"
  using assms json_string_plain [OF assms(1)] by (simp add: quoted_def)

lemma emit_json:
  assumes "g_format st = LOG_FORMAT_JSON" and "emit st secs level cmp message = (out, line)"
  shows "json_object line = Some ([(''time'', format_timestamp secs), (''level'', level_name level),
      (''component'', cmp), (''message'', message)], [NL])"
proof -
  define m4 where "m4 = quoted ''message'' @ '':'' @ quoted (write_json_escaped message) @ ''}'' @ [NL]"
  define m3 where "m3 = quoted ''component'' @ '':'' @ quoted (write_json_escaped cmp) @ '','' @ m4"
  define m2 where "m2 = quoted ''level'' @ '':'' @ quoted (level_name level) @ '','' @ m3"
  define m1 where "m1 = quoted ''time'' @ '':'' @ quoted (format_timestamp secs) @ '','' @ m2"
  have line: "line = CHR ''{'' # m1"
    using assms by (simp add: emit_def Let_def m1_def m2_def m3_def m4_def)
  have keys: "json_plain ''time''" "json_plain ''level''" "json_plain ''component''" "json_plain ''message''"
    by simp_all
  have "4 \<le> length m1" by (simp add: m1_def quoted_def)
  then obtain k where "length m1 = 4 + k" using le_Suc_ex by blast
  then have len: "length m1 = Suc (Suc (Suc (Suc k)))" by simp
  have "json_members (Suc k) m4 = Some ([(''message'', message)], [NL])"
    unfolding m4_def by (rule json_members_last [OF keys(4) json_string_escaped])
  then have "json_members (Suc (Suc k)) m3 = Some ([(''component'', cmp), (''message'', message)], [NL])"
    unfolding m3_def by (subst json_members_Cons [OF keys(3) json_string_escaped]) (simp only:, simp)
  then have "json_members (Suc (Suc (Suc k))) m2 =
      Some ([(''level'', level_name level), (''component'', cmp), (''message'', message)], [NL])"
    unfolding m2_def
    by (subst json_members_Cons [OF keys(2) json_string_plain [OF json_plain_level]]) (simp only:, simp)
  then have "json_members (length m1) m1 = Some ([(''time'', format_timestamp secs), (''level'', level_name level),
      (''component'', cmp), (''message'', message)], [NL])"
    unfolding len unfolding m1_def
    by (subst json_members_Cons [OF keys(1) json_string_plain [OF json_plain_timestamp]]) (simp only:, simp)
  then show ?thesis by (simp add: line json_object_def)
qed

lemma json_plain_no_newline: "json_plain s \<Longrightarrow> NL \<notin> set s"
  by (induction s) auto

lemma emit_one_line:
  assumes "g_format st = LOG_FORMAT_JSON" and "emit st secs level cmp message = (out, line)"
  shows "\<exists>body. line = body @ [NL] \<and> NL \<notin> set body"
proof -
  have "NL \<notin> set (write_json_escaped t)" for t
    using json_escape_raw [of NL t] by auto
  moreover have "line = (''{'' @ quoted ''time'' @ '':'' @ quoted (format_timestamp secs) @ '','' @
      quoted ''level'' @ '':'' @ quoted (level_name level) @ '','' @
      quoted ''component'' @ '':'' @ quoted (write_json_escaped cmp) @ '','' @
      quoted ''message'' @ '':'' @ quoted (write_json_escaped message) @ ''}'') @ [NL]"
    using assms by (simp add: emit_def Let_def)
  ultimately show ?thesis
    using json_plain_no_newline [OF json_plain_timestamp [of secs]]
      json_plain_no_newline [OF json_plain_level [of level]]
    by (intro exI conjI) (assumption, simp add: quoted_def)
qed

lemma log_at_Some:
  assumes "log_at env st secs level cmp m = (st', Some (out, line))"
  shows "emit st' secs level cmp (take (LOG_MESSAGE_BYTES - 1) m) = (out, line)"
  using assms by (auto simp: log_at_def split: prod.splits if_splits)

lemma year_of_bound: "fst (year_of y d) \<le> y + d div 365"
proof (induction y d rule: year_of.induct)
  case (1 y d)
  show ?case
  proof (cases "d < year_days y")
    case True
    then show ?thesis by (simp add: year_of.simps [of y d])
  next
    case False
    have "Suc ((d - year_days y) div 365) \<le> Suc ((d - 365) div 365)"
      by (simp add: year_days_def div_le_mono diff_le_mono2)
    also have "\<dots> = d div 365"
      using False by (simp add: year_days_def le_div_geq split: if_splits)
    finally show ?thesis
      using False "1.IH" by (simp add: year_of.simps [of y d])
  qed
qed

lemma level_names_lower:
  "map tolower ''DEBUG'' = ''debug''" "map tolower ''debug'' = ''debug''"
  "map tolower ''INFO'' = ''info''" "map tolower ''info'' = ''info''"
  "map tolower ''WARN'' = ''warn''" "map tolower ''warn'' = ''warn''"
  "map tolower ''ERROR'' = ''error''" "map tolower ''error'' = ''error''"
  by code_simp+

lemma g_level_log_init:
  "g_level (log_init env st) = (case env ''LOG_LEVEL'' of None \<Rightarrow> LOG_LEVEL_INFO
     | Some v \<Rightarrow> if strcaseeq v ''debug'' then LOG_LEVEL_DEBUG else if strcaseeq v ''info'' then LOG_LEVEL_INFO
         else if strcaseeq v ''warn'' then LOG_LEVEL_WARN else if strcaseeq v ''error'' then LOG_LEVEL_ERROR
         else LOG_LEVEL_INFO)"
  by (cases "env ''LOG_FORMAT''"; cases "env ''LOG_LEVEL''") (simp_all add: log_init_def Let_def)

lemma year_of_day: "snd (year_of y d) < year_days (fst (year_of y d))"
  by (induction y d rule: year_of.induct) (simp add: year_of.simps)

lemma month_of_bound: "fst (month_of m ls d) \<le> m + length ls \<and> snd (month_of m ls d) \<le> d"
  by (induction m ls d rule: month_of.induct) auto

lemma pad2_length: "n < 1000 \<Longrightarrow> length (pad2 n) \<le> 3"
  by (simp add: pad2_def show_nat.simps [of n] show_nat.simps [of "n div 10"] show_nat.simps [of "n div 100"]
      div_mult2_eq [symmetric])

section \<open>Properties\<close>

text \<open>C30. Log injection is impossible in JSON mode: whatever bytes the component name and the
  message contain, the line written is one line, terminated by its only newline, and a JSON reader
  gets back exactly the time, the level, the component and the message (cut to the 1023 bytes the
  buffer holds).\<close>

theorem json_log_line_reads_back:
  assumes "log_at env st secs level cmp m = (st', Some (out, line))" and "g_format st' = LOG_FORMAT_JSON"
  shows "json_object line = Some ([(''time'', format_timestamp secs), (''level'', level_name level),
      (''component'', cmp), (''message'', take (LOG_MESSAGE_BYTES - 1) m)], [NL]) \<and>
    (\<exists>body. line = body @ [NL] \<and> NL \<notin> set body)"
  using emit_json [OF assms(2) log_at_Some [OF assms(1)]] emit_one_line [OF assms(2) log_at_Some [OF assms(1)]]
  by blast

definition demo_env :: env where
  "demo_env v = (if v = ''LOG_FORMAT'' then Some ''json'' else None)"

theorem json_log_line_reads_back_witness:
  "\<exists>out line. snd (log_at demo_env log_start 0 LOG_LEVEL_WARN ''peer'' [QUOTE, NL, BACKSLASH]) = Some (out, line) \<and>
     json_object line = Some ([(''time'', format_timestamp 0), (''level'', ''WARN''),
       (''component'', ''peer''), (''message'', [QUOTE, NL, BACKSLASH])], [NL])"
proof -
  obtain st' out line where r: "log_at demo_env log_start 0 LOG_LEVEL_WARN ''peer'' [QUOTE, NL, BACKSLASH] =
      (st', Some (out, line))" and f: "g_format st' = LOG_FORMAT_JSON"
    by (auto simp: log_at_def log_level_enabled_def ensure_initialized_def log_start_def log_init_def demo_env_def
        strcaseeq_def less_eq_log_level_def emit_def Let_def)
  from json_log_line_reads_back [OF r f] r show ?thesis by (simp add: const_defs)
qed

text \<open>C38. Lazy initialisation is invisible: the first message logged without a call of \<open>log_init\<close>
  has the effect it would have after one, so it already obeys the environment. A message is
  written exactly when its level reaches the configured one, warnings and errors to the error
  stream and the others to the output stream, and the configured level is the one \<open>LOG_LEVEL\<close>
  names in any case of letters, or info when it names none.\<close>

theorem log_filtering:
  "log_at env log_start secs level cmp m = log_at env (log_init env log_start) secs level cmp m \<and>
   (case log_at env (log_init env log_start) secs level cmp m of (st, written) \<Rightarrow>
      st = log_init env log_start \<and>
      (written = None \<longleftrightarrow> level < g_level st) \<and>
      (\<forall>out line. written = Some (out, line) \<longrightarrow> (out = Stderr \<longleftrightarrow> LOG_LEVEL_WARN \<le> level)) \<and>
      g_level st \<in> (case env ''LOG_LEVEL'' of None \<Rightarrow> {LOG_LEVEL_INFO}
        | Some v \<Rightarrow> if \<exists>l. strcaseeq v (level_name l) then {l. strcaseeq v (level_name l)}
                    else {LOG_LEVEL_INFO}))"
proof -
  have init: "g_initialized (log_init env st)" for st by (simp add: log_init_def Let_def)
  have lazy: "log_at env log_start secs level cmp m = log_at env (log_init env log_start) secs level cmp m"
    using init by (simp add: log_at_def log_level_enabled_def ensure_initialized_def log_start_def)
  have names: "strcaseeq v (level_name LOG_LEVEL_DEBUG) \<longleftrightarrow> strcaseeq v ''debug''"
    "strcaseeq v (level_name LOG_LEVEL_INFO) \<longleftrightarrow> strcaseeq v ''info''"
    "strcaseeq v (level_name LOG_LEVEL_WARN) \<longleftrightarrow> strcaseeq v ''warn''"
    "strcaseeq v (level_name LOG_LEVEL_ERROR) \<longleftrightarrow> strcaseeq v ''error''" for v
    by (simp_all only: strcaseeq_def level_name.simps level_names_lower)
  have ex: "(\<exists>l. P l) \<longleftrightarrow> P LOG_LEVEL_DEBUG \<or> P LOG_LEVEL_INFO \<or> P LOG_LEVEL_WARN \<or> P LOG_LEVEL_ERROR" for P
    by (metis log_level.exhaust)
  have level: "g_level (log_init env log_start) \<in> (case env ''LOG_LEVEL'' of None \<Rightarrow> {LOG_LEVEL_INFO}
        | Some v \<Rightarrow> if \<exists>l. strcaseeq v (level_name l) then {l. strcaseeq v (level_name l)}
                    else {LOG_LEVEL_INFO})"
    by (cases "env ''LOG_LEVEL''") (simp_all add: g_level_log_init names ex del: level_name.simps)
  have at: "log_at env (log_init env log_start) secs level cmp m =
      (log_init env log_start, if g_level (log_init env log_start) \<le> level
         then Some (emit (log_init env log_start) secs level cmp (take (LOG_MESSAGE_BYTES - 1) m)) else None)"
    using init by (simp add: log_at_def log_level_enabled_def ensure_initialized_def)
  have out: "fst (emit st secs level cmp t) = (if LOG_LEVEL_WARN \<le> level then Stderr else Stdout)" for st t
    by (simp add: emit_def Let_def)
  then have out: "(out = Stderr) = (LOG_LEVEL_WARN \<le> level)"
    if "emit st secs level cmp t = (out, line)" for st t out line
    using that by (metis fst_conv stream.distinct(1))
  show ?thesis
  proof (cases "g_level (log_init env log_start) \<le> level")
    case True
    with lazy level out show ?thesis unfolding at prod.case by (simp add: leD)
  next
    case False
    with lazy level show ?thesis unfolding at prod.case by (simp add: not_le)
  qed
qed

theorem log_filtering_witness:
  "snd (log_at demo_env log_start 0 LOG_LEVEL_DEBUG ''peer'' ''hidden'') = None"
proof -
  have "g_level (log_init demo_env log_start) = LOG_LEVEL_INFO"
    by (simp add: g_level_log_init demo_env_def)
  then show ?thesis
    using log_filtering [of demo_env 0 LOG_LEVEL_DEBUG "''peer''" "''hidden''"]
    by (simp add: less_log_level_def split: prod.splits)
qed

text \<open>The timestamp fits its 32-byte buffer, terminator included, for every clock reading below
  \<open>10 ^ 12\<close> seconds (some thirty thousand years), and always reads as plain JSON text.\<close>

theorem timestamp_fits:
  assumes "secs < 10 ^ 12"
  shows "length (format_timestamp secs) < 32 \<and> json_plain (format_timestamp secs)"
proof -
  obtain y yd where y: "year_of 1970 (secs div 86400) = (y, yd)" by fastforce
  obtain mon md where md: "month_of 1 (month_days y) yd = (mon, md)" by fastforce
  have "y \<le> 1970 + secs div 86400 div 365" using year_of_bound [of 1970 "secs div 86400"] y by simp
  moreover have "secs div 86400 div 365 \<le> 31710" using assms by simp
  ultimately have "y < 65536" by simp
  then have "length (show_nat y) \<le> 5" by (rule show_nat_length_5)
  moreover have "mon \<le> 13" "md \<le> yd"
    using month_of_bound [of 1 "month_days y" yd] md by (simp_all add: month_days_def)
  then have "length (pad2 mon) \<le> 3" "length (pad2 (md + 1)) \<le> 3"
    using year_of_day [of 1970 "secs div 86400"] y by (auto intro!: pad2_length simp: year_days_def split: if_splits)
  moreover have "length (pad2 (secs mod 86400 div 3600)) \<le> 3" "length (pad2 (secs mod 86400 mod 3600 div 60)) \<le> 3"
    "length (pad2 (secs mod 86400 mod 60)) \<le> 3"
    by (rule pad2_length, simp add: less_mult_imp_div_less order.strict_trans1 [OF div_le_dividend])+
  ultimately have "length (format_timestamp secs) < 32"
    by (simp add: format_timestamp_def y md [simplified] Let_def)
  then show ?thesis by (simp add: json_plain_timestamp)
qed

theorem timestamp_fits_witness:
  "length (format_timestamp 1763251200) < 32"
  using timestamp_fits [of 1763251200] by simp

end
