(* ===== verification/Netdev.thy ===== *)
theory Netdev
  imports Routing
begin

text \<open>
  The TUN device and the UDP socket (\<open>src/src/tun.c\<close>, \<open>src/src/udp.c\<close>). The process's open
  descriptors and \<open>errno\<close> are the record \<open>kernel\<close>. What a system call answers is up to the
  kernel: each operation takes a record of answers, functions of the arguments the code passes,
  so that every error path of the code is a branch of the model. \<open>close\<close> may leave any value in
  \<open>errno\<close>, which is why the code saves it.
\<close>

section \<open>System calls\<close>

record kernel =
  open_fds :: "int set"
  errno :: int

text \<open>The answer of a system call: a value, or -1 with an error number.\<close>

datatype 'a sysret = Ret 'a | Fail int

definition sys_fail :: "int \<Rightarrow> kernel \<Rightarrow> kernel" where
  "sys_fail e k = k\<lparr>errno := e\<rparr>"

definition sys_alloc :: "int \<Rightarrow> kernel \<Rightarrow> kernel" where
  "sys_alloc fd k = k\<lparr>open_fds := insert fd (open_fds k)\<rparr>"

definition sys_close :: "int \<Rightarrow> int \<Rightarrow> kernel \<Rightarrow> kernel" where
  "sys_close clobber fd k = k\<lparr>open_fds := open_fds k - {fd}, errno := clobber\<rparr>"

text \<open>\<open>int saved_errno = errno; close(fd); errno = saved_errno;\<close>\<close>

definition close_keeping_errno :: "int \<Rightarrow> int \<Rightarrow> kernel \<Rightarrow> kernel" where
  "close_keeping_errno clobber fd k =
     (let saved_errno = errno k in (sys_close clobber fd k)\<lparr>errno := saved_errno\<rparr>)"

text \<open>A descriptor the kernel hands out is non-negative and was not open.\<close>

definition fresh_fd :: "int sysret \<Rightarrow> kernel \<Rightarrow> bool" where
  "fresh_fd r k \<longleftrightarrow> (case r of Ret fd \<Rightarrow> 0 \<le> fd \<and> fd \<notin> open_fds k | Fail _ \<Rightarrow> True)"

definition EINVAL :: int where "EINVAL = 22"
definition IFF_UP :: u16 where "IFF_UP = 0x1"
definition IFF_RUNNING :: u16 where "IFF_RUNNING = 0x40"
definition IFF_TUN :: u16 where "IFF_TUN = 0x1"
definition IFF_NO_PI :: u16 where "IFF_NO_PI = 0x1000"

section \<open>TUN device\<close>

record tun_device =
  tun_fd :: int
  dev_name :: string

record tun_open_answers =
  ans_open :: "int sysret"
  ans_tunsetiff :: "string \<Rightarrow> u16 \<Rightarrow> string sysret"
  ans_open_close :: int

definition tun_open ::
  "tun_open_answers \<Rightarrow> kernel \<Rightarrow> string \<Rightarrow> kernel \<times> tun_device \<times> int" where
  "tun_open io k name_hint =
     (let dev = \<lparr>tun_fd = -1, dev_name = []\<rparr> in
        case ans_open io of
          Fail e \<Rightarrow> (sys_fail e k, dev, -1)
        | Ret fd \<Rightarrow>
            (let k1 = sys_alloc fd k;
                 ifr_name = (if name_hint \<noteq> [] then take (IFNAMSIZ - 1) name_hint else [])
             in case ans_tunsetiff io ifr_name (IFF_TUN OR IFF_NO_PI) of
                  Fail e \<Rightarrow> (close_keeping_errno (ans_open_close io) fd (sys_fail e k1), dev, -1)
                | Ret assigned \<Rightarrow> (k1, \<lparr>tun_fd = fd, dev_name = take (IFNAMSIZ - 1) assigned\<rparr>, 0)))"

definition set_ifreq_ipv4 :: "string \<Rightarrow> u32 sysret" where
  "set_ifreq_ipv4 txt = (case inet_pton txt of None \<Rightarrow> Fail EINVAL | Some a \<Rightarrow> Ret a)"

text \<open>The requests \<open>tun_configure\<close> makes; the answer carries the flags of \<open>SIOCGIFFLAGS\<close>.\<close>

datatype ifreq =
    SIOCSIFADDR string u32
  | SIOCSIFNETMASK string u32
  | SIOCGIFFLAGS string
  | SIOCSIFFLAGS string u16

record tun_configure_answers =
  ans_socket :: "int sysret"
  ans_ioctl :: "ifreq \<Rightarrow> u16 sysret"
  ans_close :: int

text \<open>The error exit of \<open>tun_configure\<close>, with the requests made so far.\<close>

definition configure_failed ::
  "tun_configure_answers \<Rightarrow> int \<Rightarrow> int \<Rightarrow> kernel \<Rightarrow> ifreq list \<Rightarrow> kernel \<times> ifreq list \<times> int" where
  "configure_failed io sock e k reqs = (close_keeping_errno (ans_close io) sock (sys_fail e k), reqs, -1)"

definition tun_configure ::
  "tun_configure_answers \<Rightarrow> kernel \<Rightarrow> tun_device \<Rightarrow> string \<Rightarrow> string \<Rightarrow> kernel \<times> ifreq list \<times> int" where
  "tun_configure io k dev ipv4_address netmask =
     (case ans_socket io of
        Fail e \<Rightarrow> (sys_fail e k, [], -1)
      | Ret sock \<Rightarrow>
          (let k1 = sys_alloc sock k; name = take (IFNAMSIZ - 1) (dev_name dev) in
           case set_ifreq_ipv4 ipv4_address of
             Fail e \<Rightarrow> configure_failed io sock e k1 []
           | Ret addr \<Rightarrow>
               (let r1 = SIOCSIFADDR name addr in
                case ans_ioctl io r1 of
                  Fail e \<Rightarrow> configure_failed io sock e k1 [r1]
                | Ret _ \<Rightarrow>
                    (case set_ifreq_ipv4 netmask of
                       Fail e \<Rightarrow> configure_failed io sock e k1 [r1]
                     | Ret netm \<Rightarrow>
                         (let r2 = SIOCSIFNETMASK name netm in
                          case ans_ioctl io r2 of
                            Fail e \<Rightarrow> configure_failed io sock e k1 [r1, r2]
                          | Ret _ \<Rightarrow>
                              (let r3 = SIOCGIFFLAGS name in
                               case ans_ioctl io r3 of
                                 Fail e \<Rightarrow> configure_failed io sock e k1 [r1, r2, r3]
                               | Ret flags \<Rightarrow>
                                   (let r4 = SIOCSIFFLAGS name (flags OR (IFF_UP OR IFF_RUNNING)) in
                                    case ans_ioctl io r4 of
                                      Fail e \<Rightarrow> configure_failed io sock e k1 [r1, r2, r3, r4]
                                    | Ret _ \<Rightarrow> (sys_close (ans_close io) sock k1, [r1, r2, r3, r4], 0))))))))"

text \<open>What the two ends of the program do to the outside world, in order: packets written to the
  interface and datagrams sent, with the descriptor used.\<close>

datatype net_effect =
    TunWrite int bytes
  | UdpSend int "u32 \<times> u16" bytes

text \<open>\<open>read\<close> delivers at most the size of the buffer; \<open>write\<close> hands the packet over.\<close>

definition tun_read :: "bytes sysret \<Rightarrow> nat \<Rightarrow> bytes sysret" where
  "tun_read answer buf_len = (case answer of Fail e \<Rightarrow> Fail e | Ret packet \<Rightarrow> Ret (take buf_len packet))"

definition tun_write :: "nat sysret \<Rightarrow> tun_device \<Rightarrow> bytes \<Rightarrow> net_effect \<times> nat sysret" where
  "tun_write answer dev buf = (TunWrite (tun_fd dev) buf, answer)"

definition tun_close :: "int \<Rightarrow> kernel \<Rightarrow> tun_device \<Rightarrow> kernel \<times> tun_device" where
  "tun_close clobber k dev =
     (if tun_fd dev \<ge> 0 then (sys_close clobber (tun_fd dev) k, dev\<lparr>tun_fd := -1\<rparr>) else (k, dev))"

section \<open>UDP socket\<close>

record udp_socket =
  udp_fd :: int

record sockaddr_in =
  sin_addr :: u32
  sin_port :: u16

text \<open>\<open>htons\<close> on a little-endian host.\<close>

definition htons :: "u16 \<Rightarrow> u16" where
  "htons x = push_bit 8 x OR drop_bit 8 x"

record udp_bind_answers =
  ans_udp_socket :: "int sysret"
  ans_bind :: "sockaddr_in \<Rightarrow> unit sysret"
  ans_udp_close :: int

definition udp_bind :: "udp_bind_answers \<Rightarrow> kernel \<Rightarrow> u16 \<Rightarrow> kernel \<times> udp_socket \<times> int" where
  "udp_bind io k prt =
     (case ans_udp_socket io of
        Fail e \<Rightarrow> (sys_fail e k, \<lparr>udp_fd = -1\<rparr>, -1)
      | Ret fd \<Rightarrow>
          (let k1 = sys_alloc fd k; addr = \<lparr>sin_addr = htonl 0, sin_port = htons prt\<rparr> in
           case ans_bind io addr of
             Fail e \<Rightarrow> (close_keeping_errno (ans_udp_close io) fd (sys_fail e k1), \<lparr>udp_fd = -1\<rparr>, -1)
           | Ret _ \<Rightarrow> (k1, \<lparr>udp_fd = fd\<rparr>, 0)))"

text \<open>\<open>getaddrinfo\<close>: its return code and the first address of the result list, if any.\<close>

type_synonym resolver = "string \<Rightarrow> int \<times> u32 option"

definition udp_resolve :: "resolver \<Rightarrow> string \<Rightarrow> u16 \<Rightarrow> sockaddr_in option" where
  "udp_resolve getaddrinfo hst prt =
     (case getaddrinfo hst of
        (rc, result) \<Rightarrow>
          if rc \<noteq> 0 then None
          else (case result of None \<Rightarrow> None | Some a \<Rightarrow> Some \<lparr>sin_addr = a, sin_port = htons prt\<rparr>))"

definition udp_send :: "nat sysret \<Rightarrow> udp_socket \<Rightarrow> bytes \<Rightarrow> sockaddr_in \<Rightarrow> net_effect \<times> nat sysret" where
  "udp_send answer sock buf dest = (UdpSend (udp_fd sock) (sin_addr dest, sin_port dest) buf, answer)"

definition udp_recv :: "(bytes \<times> sockaddr_in) sysret \<Rightarrow> nat \<Rightarrow> (bytes \<times> sockaddr_in) sysret" where
  "udp_recv answer buf_len =
     (case answer of Fail e \<Rightarrow> Fail e | Ret (datagram, from) \<Rightarrow> Ret (take buf_len datagram, from))"

definition udp_close :: "int \<Rightarrow> kernel \<Rightarrow> udp_socket \<Rightarrow> kernel \<times> udp_socket" where
  "udp_close clobber k sock =
     (if udp_fd sock \<ge> 0 then (sys_close clobber (udp_fd sock) k, sock\<lparr>udp_fd := -1\<rparr>) else (k, sock))"

section \<open>Lemmas\<close>

lemmas kernel_defs = sys_fail_def sys_alloc_def sys_close_def close_keeping_errno_def fresh_fd_def Let_def

lemma close_keeping_errno_alloc:
  "fd \<notin> open_fds k \<Longrightarrow>
     close_keeping_errno c fd (sys_fail e (sys_alloc fd k)) = k\<lparr>errno := e\<rparr>"
  by (simp add: kernel_defs)

lemma sys_close_alloc: "fd \<notin> open_fds k \<Longrightarrow> open_fds (sys_close c fd (sys_alloc fd k)) = open_fds k"
  by (simp add: kernel_defs)

lemma tun_open_cases:
  assumes "fresh_fd (ans_open io) k" and "tun_open io k hint = (k', dev, rc)"
  obtains (opened) fd assigned where "rc = 0" "ans_open io = Ret fd" "fd \<notin> open_fds k" "0 \<le> fd"
      "k' = sys_alloc fd k" "dev = \<lparr>tun_fd = fd, dev_name = take (IFNAMSIZ - 1) assigned\<rparr>"
    | (failed) e where "rc = -1" "k' = k\<lparr>errno := e\<rparr>" "tun_fd dev = -1"
        "ans_open io = Fail e \<or> (\<exists>name flags. ans_tunsetiff io name flags = Fail e)"
proof (cases "ans_open io")
  case (Fail e)
  with assms(2) show thesis by (intro failed [of e]) (auto simp: tun_open_def sys_fail_def)
next
  case (Ret fd)
  let ?name = "if hint \<noteq> [] then take (IFNAMSIZ - 1) hint else []"
  show thesis
  proof (cases "ans_tunsetiff io ?name (IFF_TUN OR IFF_NO_PI)")
    case (Fail e)
    with Ret assms show thesis
      by (intro failed [of e]) (auto simp: tun_open_def fresh_fd_def close_keeping_errno_alloc Let_def)
  next
    case (Ret assigned)
    with \<open>ans_open io = Ret fd\<close> assms show thesis
      by (intro opened [of fd assigned]) (auto simp: tun_open_def fresh_fd_def Let_def)
  qed
qed

lemma udp_bind_cases:
  assumes "fresh_fd (ans_udp_socket io) k" and "udp_bind io k prt = (k', sock, rc)"
  obtains (bound) fd where "rc = 0" "ans_udp_socket io = Ret fd" "fd \<notin> open_fds k" "0 \<le> fd"
      "k' = sys_alloc fd k" "sock = \<lparr>udp_fd = fd\<rparr>"
    | (failed) e where "rc = -1" "k' = k\<lparr>errno := e\<rparr>" "udp_fd sock = -1"
        "ans_udp_socket io = Fail e \<or> (\<exists>a. ans_bind io a = Fail e)"
proof (cases "ans_udp_socket io")
  case (Fail e)
  with assms(2) show thesis by (intro failed [of e]) (auto simp: udp_bind_def sys_fail_def)
next
  case (Ret fd)
  show thesis
  proof (cases "ans_bind io \<lparr>sin_addr = htonl 0, sin_port = htons prt\<rparr>")
    case (Fail e)
    with Ret assms show thesis
      by (intro failed [of e]) (auto simp: udp_bind_def fresh_fd_def close_keeping_errno_alloc Let_def)
  next
    case (Ret u)
    with \<open>ans_udp_socket io = Ret fd\<close> assms show thesis
      by (intro bound [of fd]) (auto simp: udp_bind_def fresh_fd_def Let_def)
  qed
qed

text \<open>The four requests that configure an interface.\<close>

definition interface_requests :: "string \<Rightarrow> u32 \<Rightarrow> u32 \<Rightarrow> u16 \<Rightarrow> ifreq list" where
  "interface_requests name addr netm flags =
     [SIOCSIFADDR name addr, SIOCSIFNETMASK name netm, SIOCGIFFLAGS name,
      SIOCSIFFLAGS name (flags OR (IFF_UP OR IFF_RUNNING))]"

definition granted :: "tun_configure_answers \<Rightarrow> ifreq \<Rightarrow> bool" where
  "granted io r \<longleftrightarrow> (\<exists>v. ans_ioctl io r = Ret v)"

lemma tun_configure_fds:
  assumes "fresh_fd (ans_socket io) k"
  shows "open_fds (fst (tun_configure io k dev a m)) = open_fds k"
proof (cases "ans_socket io")
  case (Fail e)
  then show ?thesis by (simp add: tun_configure_def sys_fail_def)
next
  case (Ret fd)
  with assms have fd: "fd \<notin> open_fds k" by (simp add: fresh_fd_def)
  have "open_fds (fst (configure_failed io fd e (sys_alloc fd k) rs)) = open_fds k" for e rs
    using fd by (simp add: configure_failed_def close_keeping_errno_alloc)
  with fd Ret show ?thesis
    by (simp add: tun_configure_def sys_close_alloc Let_def split: sysret.split)
qed

lemma tun_configure_valid:
  assumes fresh: "fresh_fd (ans_socket io) k"
    and a: "inet_pton a = Some addr" and m: "inet_pton m = Some netm"
    and r: "tun_configure io k dev a m = (k', reqs, rc)"
  shows "(rc = 0 \<and> (\<exists>flags. ans_ioctl io (SIOCGIFFLAGS (take (IFNAMSIZ - 1) (dev_name dev))) = Ret flags \<and>
        reqs = interface_requests (take (IFNAMSIZ - 1) (dev_name dev)) addr netm flags) \<and>
      list_all (granted io) reqs) \<or>
    (rc = -1 \<and> (reqs = [] \<and> ans_socket io = Fail (errno k') \<or>
       reqs \<noteq> [] \<and> list_all (granted io) (butlast reqs) \<and> ans_ioctl io (last reqs) = Fail (errno k')))"
proof (cases "ans_socket io")
  case (Fail e)
  with r show ?thesis by (auto simp: tun_configure_def sys_fail_def)
next
  case (Ret fd)
  with fresh have fd: "fd \<notin> open_fds k" by (simp add: fresh_fd_def)
  have failed: "configure_failed io fd e (sys_alloc fd k) rs = (k\<lparr>errno := e\<rparr>, rs, -1)" for e rs
    using fd by (simp add: configure_failed_def close_keeping_errno_alloc)
  show ?thesis
    using r Ret a m
    by (auto simp: tun_configure_def set_ifreq_ipv4_def failed Let_def interface_requests_def granted_def
        split: sysret.splits)
qed

section \<open>Properties\<close>


definition demo_kernel :: kernel where
  "demo_kernel = \<lparr>open_fds = {0, 1, 2}, errno = 0\<rparr>"


text \<open>C33. Bringing up the interface with a loaded configuration: the addresses \<open>config_load\<close> accepted
  never make \<open>tun_configure\<close> fail by themselves. It succeeds exactly by making the four requests in
  order (address, netmask of the configured prefix length, read flags, set the flags with
  \<open>IFF_UP\<close> and \<open>IFF_RUNNING\<close> added to what was read), all granted; otherwise the last request
  made is the one refused, its error is in \<open>errno\<close>, and every earlier one was granted.\<close>

theorem tun_configure_with_config:
  assumes "config_load sod contents = Inr c" and "fresh_fd (ans_socket io) k"
    and "tun_configure io k dev (tun_address c) (tun_netmask c) = (k', reqs, rc)"
  shows "\<exists>addr prefix. inet_pton (tun_address c) = Some addr \<and> prefix \<le> 32 \<and>
    ((rc = 0 \<and> (\<exists>flags. ans_ioctl io (SIOCGIFFLAGS (take (IFNAMSIZ - 1) (dev_name dev))) = Ret flags \<and>
         reqs = interface_requests (take (IFNAMSIZ - 1) (dev_name dev)) addr (htonl (prefix_mask prefix)) flags) \<and>
       list_all (granted io) reqs) \<or>
     (rc = -1 \<and> (reqs = [] \<and> ans_socket io = Fail (errno k') \<or>
        reqs \<noteq> [] \<and> list_all (granted io) (butlast reqs) \<and> ans_ioctl io (last reqs) = Fail (errno k'))))"
proof -
  obtain addr where a: "inet_pton (tun_address c) = Some addr"
    using config_load_valid [OF assms(1)] by auto
  obtain k where m: "k \<le> 32" "inet_pton (tun_netmask c) = Some (htonl (prefix_mask k))"
    using config_load_valid [OF assms(1)] by auto
  from tun_configure_valid [OF assms(2) a m(2) assms(3)] a m(1) show ?thesis by blast
qed

theorem tun_configure_with_config_witness:
  "\<exists>k' reqs. tun_configure \<lparr>ans_socket = Ret 4, ans_ioctl = (\<lambda>_. Ret 0), ans_close = 0\<rparr> demo_kernel
       \<lparr>tun_fd = 3, dev_name = ''edgar0''\<rparr> (tun_address demo_config) (tun_netmask demo_config) = (k', reqs, 0) \<and>
     length reqs = 4"
proof -
  let ?io = "\<lparr>ans_socket = Ret 4, ans_ioctl = (\<lambda>_. Ret 0), ans_close = 0\<rparr>"
  let ?dev = "\<lparr>tun_fd = 3, dev_name = ''edgar0''\<rparr>"
  obtain k' reqs rc where r: "tun_configure ?io demo_kernel ?dev (tun_address demo_config) (tun_netmask demo_config) =
      (k', reqs, rc)"
    by (cases "tun_configure ?io demo_kernel ?dev (tun_address demo_config) (tun_netmask demo_config)")
  have "fresh_fd (ans_socket ?io) demo_kernel" by (simp add: fresh_fd_def demo_kernel_def)
  from tun_configure_with_config [OF config_load_printed [OF demo_base64_correct demo_base64_text demo_config_printable]
      this r]
  show ?thesis using r by (auto simp: interface_requests_def)
qed

end
