(* ===== verification/Messages.thy ===== *)
theory Messages
  imports Netdev Log
begin

text \<open>
  The log messages of the daemon (the \<open>log_debug\<close>, \<open>log_info\<close>, \<open>log_warn\<close> and \<open>log_error\<close> calls of
  \<open>src/src/main.c\<close>): one constructor per format string, with the arguments it is given. \<open>message_level\<close> is
  the function called, \<open>message_text\<close> the string the format gives before \<open>vsnprintf\<close> cuts it to the
  buffer. Addresses and ports are as in \<open>sockaddr_in\<close>; error numbers become text by the argument
  \<open>strerror\<close>. The configuration loader does not use the log: \<open>config_error_text\<close> is what it prints on
  the error stream (\<open>src/src/config.c\<close>).
\<close>

section \<open>Data\<close>

datatype message =
    CryptoInitFailed
  | TunOpenFailed string int
  | TunConfigureFailed string int
  | UdpBindFailed u16 int
  | SessionInitFailed string
  | AwaitingInit string
  | UpWithPeers string string string u16 nat
  | UpCaptureOnly string string string u16
  | NotResolvable string
  | InitNotSent string
  | InitSent string
  | PollFailed int
  | TunReadFailed int
  | CapturedPacket nat
  | NoRoute nat
  | NotEstablished string nat
  | EncryptFailed nat string
  | DataNotSent string int
  | TunToUdp string nat nat
  | UdpRecvFailed int
  | NoSession nat
  | InitUnauthenticated u32 u16
  | ResponseNotSent string int
  | HandshakeLearned string u32 u16
  | Unrecognized u32 u16
  | InitRejected string
  | HandshakeComplete string
  | ResponseRejected string
  | DataDropped string
  | KeepaliveReceived string
  | TunWriteFailed int
  | UdpToTun string nat nat
  | UnexpectedType byte string
  | KeepaliveNotBuilt string
  | KeepaliveNotSent string int
  | KeepaliveSent string
  | HeardNothing string u32
  | RotatingKeys string u32
  | PeerStats string bool u64 u64 u64 u64 u64 u64 u64
  | ShuttingDown

section \<open>Levels and texts\<close>

fun message_level :: "message \<Rightarrow> log_level" where
  "message_level CryptoInitFailed = LOG_LEVEL_ERROR"
| "message_level (TunOpenFailed _ _) = LOG_LEVEL_ERROR"
| "message_level (TunConfigureFailed _ _) = LOG_LEVEL_ERROR"
| "message_level (UdpBindFailed _ _) = LOG_LEVEL_ERROR"
| "message_level (SessionInitFailed _) = LOG_LEVEL_ERROR"
| "message_level (AwaitingInit _) = LOG_LEVEL_INFO"
| "message_level (UpWithPeers _ _ _ _ _) = LOG_LEVEL_INFO"
| "message_level (UpCaptureOnly _ _ _ _) = LOG_LEVEL_INFO"
| "message_level (NotResolvable _) = LOG_LEVEL_WARN"
| "message_level (InitNotSent _) = LOG_LEVEL_ERROR"
| "message_level (InitSent _) = LOG_LEVEL_INFO"
| "message_level (PollFailed _) = LOG_LEVEL_ERROR"
| "message_level (TunReadFailed _) = LOG_LEVEL_WARN"
| "message_level (CapturedPacket _) = LOG_LEVEL_INFO"
| "message_level (NoRoute _) = LOG_LEVEL_DEBUG"
| "message_level (NotEstablished _ _) = LOG_LEVEL_DEBUG"
| "message_level (EncryptFailed _ _) = LOG_LEVEL_ERROR"
| "message_level (DataNotSent _ _) = LOG_LEVEL_WARN"
| "message_level (TunToUdp _ _ _) = LOG_LEVEL_DEBUG"
| "message_level (UdpRecvFailed _) = LOG_LEVEL_WARN"
| "message_level (NoSession _) = LOG_LEVEL_DEBUG"
| "message_level (InitUnauthenticated _ _) = LOG_LEVEL_WARN"
| "message_level (ResponseNotSent _ _) = LOG_LEVEL_ERROR"
| "message_level (HandshakeLearned _ _ _) = LOG_LEVEL_INFO"
| "message_level (Unrecognized _ _) = LOG_LEVEL_WARN"
| "message_level (InitRejected _) = LOG_LEVEL_WARN"
| "message_level (HandshakeComplete _) = LOG_LEVEL_INFO"
| "message_level (ResponseRejected _) = LOG_LEVEL_WARN"
| "message_level (DataDropped _) = LOG_LEVEL_WARN"
| "message_level (KeepaliveReceived _) = LOG_LEVEL_DEBUG"
| "message_level (TunWriteFailed _) = LOG_LEVEL_ERROR"
| "message_level (UdpToTun _ _ _) = LOG_LEVEL_DEBUG"
| "message_level (UnexpectedType _ _) = LOG_LEVEL_WARN"
| "message_level (KeepaliveNotBuilt _) = LOG_LEVEL_ERROR"
| "message_level (KeepaliveNotSent _ _) = LOG_LEVEL_WARN"
| "message_level (KeepaliveSent _) = LOG_LEVEL_DEBUG"
| "message_level (HeardNothing _ _) = LOG_LEVEL_WARN"
| "message_level (RotatingKeys _ _) = LOG_LEVEL_INFO"
| "message_level (PeerStats _ _ _ _ _ _ _ _ _) = LOG_LEVEL_INFO"
| "message_level ShuttingDown = LOG_LEVEL_INFO"

text \<open>The conversions of the formats: \<open>'%s'\<close> in single quotes, \<open>%u\<close>, \<open>%llu\<close>, and an endpoint as
  \<open>inet_ntop\<close> and \<open>ntohs\<close> (the same function as \<open>htons\<close>) print it.\<close>

definition in_quotes :: "string \<Rightarrow> string" where
  "in_quotes s = CHR 0x27 # s @ [CHR 0x27]"

definition show_word :: "'a::len word \<Rightarrow> string" where
  "show_word w = show_nat (unat w)"

definition show_endpoint :: "u32 \<Rightarrow> u16 \<Rightarrow> string" where
  "show_endpoint a p = inet_ntop a @ '':'' @ show_word (htons p)"

fun message_text :: "(int \<Rightarrow> string) \<Rightarrow> message \<Rightarrow> string" where
  "message_text strerror CryptoInitFailed = ''failed to initialize crypto library''"
| "message_text strerror (TunOpenFailed name e) =
     ''failed to open TUN device '' @ in_quotes name @ '': '' @ strerror e"
| "message_text strerror (TunConfigureFailed name e) =
     ''failed to configure TUN device '' @ in_quotes name @ '': '' @ strerror e"
| "message_text strerror (UdpBindFailed prt e) =
     ''failed to bind UDP port '' @ show_word prt @ '': '' @ strerror e"
| "message_text strerror (SessionInitFailed h) =
     ''failed to initialize session with '' @ in_quotes h @ '' (its PublicKey may be invalid)''"
| "message_text strerror (AwaitingInit h) = ''awaiting handshake init from '' @ in_quotes h"
| "message_text strerror (UpWithPeers name a m prt n) =
     ''up: interface '' @ in_quotes name @ '' ('' @ a @ ''/'' @ m @ ''), UDP :'' @ show_word prt @ '', '' @
     show_nat n @ '' peer(s) configured''"
| "message_text strerror (UpCaptureOnly name a m prt) =
     ''up: interface '' @ in_quotes name @ '' ('' @ a @ ''/'' @ m @ ''), UDP :'' @ show_word prt @
     '', no peers configured (capture-only)''"
| "message_text strerror (NotResolvable h) = in_quotes h @ '' not resolvable yet, will keep retrying''"
| "message_text strerror (InitNotSent h) = ''failed to send handshake init to '' @ in_quotes h"
| "message_text strerror (InitSent h) = ''sent handshake init to '' @ in_quotes h @ '', awaiting response''"
| "message_text strerror (PollFailed e) = ''poll error: '' @ strerror e"
| "message_text strerror (TunReadFailed e) = ''tun_read error: '' @ strerror e"
| "message_text strerror (CapturedPacket n) = ''captured packet: '' @ show_nat n @ '' bytes''"
| "message_text strerror (NoRoute n) = ''no route for a '' @ show_nat n @ ''-byte outbound packet, dropping''"
| "message_text strerror (NotEstablished h n) =
     ''session with '' @ in_quotes h @ '' not established yet, dropping '' @ show_nat n @ ''-byte packet''"
| "message_text strerror (EncryptFailed n h) =
     ''failed to encrypt a '' @ show_nat n @ ''-byte packet for '' @ in_quotes h"
| "message_text strerror (DataNotSent h e) = ''udp_send to '' @ in_quotes h @ '' error: '' @ strerror e"
| "message_text strerror (TunToUdp h n l) =
     ''tun -> udp ('' @ h @ ''): '' @ show_nat n @ '' bytes (sealed to '' @ show_nat l @ '')''"
| "message_text strerror (UdpRecvFailed e) = ''udp_recv error: '' @ strerror e"
| "message_text strerror (NoSession n) =
     ''received '' @ show_nat n @ '' bytes on UDP with no session, dropping''"
| "message_text strerror (InitUnauthenticated a p) =
     ''handshake init from '' @ show_endpoint a p @ '' did not authenticate against any configured peer, dropping''"
| "message_text strerror (ResponseNotSent h e) =
     ''failed to send handshake response to '' @ in_quotes h @ '': '' @ strerror e"
| "message_text strerror (HandshakeLearned h a p) =
     ''handshake complete with '' @ in_quotes h @ '' (learned endpoint '' @ show_endpoint a p @ ''), session established''"
| "message_text strerror (Unrecognized a p) =
     ''received a datagram from unrecognized '' @ show_endpoint a p @ '', dropping''"
| "message_text strerror (InitRejected h) =
     ''rejected a malformed, unauthenticated, or stale handshake init from '' @ in_quotes h"
| "message_text strerror (HandshakeComplete h) = ''handshake complete with '' @ in_quotes h @ '', session established''"
| "message_text strerror (ResponseRejected h) =
     ''rejected a malformed, unauthenticated, or stale handshake response from '' @ in_quotes h"
| "message_text strerror (DataDropped h) =
     ''dropping a data packet from '' @ in_quotes h @ '' (not established, failed authentication, or replayed)''"
| "message_text strerror (KeepaliveReceived h) = ''received keepalive from '' @ in_quotes h"
| "message_text strerror (TunWriteFailed e) = ''tun_write error: '' @ strerror e"
| "message_text strerror (UdpToTun h n l) =
     ''udp -> tun ('' @ h @ ''): '' @ show_nat n @ '' bytes (opened from '' @ show_nat l @ '')''"
| "message_text strerror (UnexpectedType t h) =
     ''dropping unexpected message (type '' @ show_word t @ '') from '' @ in_quotes h @ '' for its role/state''"
| "message_text strerror (KeepaliveNotBuilt h) = ''failed to build keepalive for '' @ in_quotes h"
| "message_text strerror (KeepaliveNotSent h e) =
     ''failed to send keepalive to '' @ in_quotes h @ '': '' @ strerror e"
| "message_text strerror (KeepaliveSent h) = ''sent keepalive to '' @ in_quotes h"
| "message_text strerror (HeardNothing h t) =
     ''heard nothing from '' @ in_quotes h @ '' in '' @ show_word t @ ''ms, re-handshaking''"
| "message_text strerror (RotatingKeys h t) =
     ''rotating session keys with '' @ in_quotes h @ '' after '' @ show_word t @ ''ms''"
| "message_text strerror (PeerStats h est txp txb rxp rxb hs af dr) =
     ''stats peer='' @ h @ '' established='' @ (if est then ''yes'' else ''no'') @
     '' tx_packets='' @ show_word txp @ '' tx_bytes='' @ show_word txb @
     '' rx_packets='' @ show_word rxp @ '' rx_bytes='' @ show_word rxb @
     '' handshakes='' @ show_word hs @ '' auth_failures='' @ show_word af @ '' drops='' @ show_word dr"
| "message_text strerror ShuttingDown = ''shutting down''"

text \<open>The component a message is logged under: the configured name, which is not known yet when the
  crypto library does not start.\<close>

fun message_component :: "string \<Rightarrow> message \<Rightarrow> string" where
  "message_component local_name CryptoInitFailed = ''edgarvpn''"
| "message_component local_name m = local_name"

section \<open>Errors of the configuration loader\<close>

text \<open>\<open>reason\<close> is the text of \<open>strerror(errno)\<close> when the file cannot be opened.\<close>

definition at_line :: "string \<Rightarrow> nat \<Rightarrow> string" where
  "at_line path lineno = ''config: '' @ path @ '':'' @ show_nat lineno @ '': ''"

fun config_error_text :: "string \<Rightarrow> string \<Rightarrow> config_error \<Rightarrow> string" where
  "config_error_text reason path CannotOpen = ''config: failed to open '' @ in_quotes path @ '': '' @ reason @ [NL]"
| "config_error_text reason path (UnterminatedHeader n) = at_line path n @ ''unterminated section header'' @ [NL]"
| "config_error_text reason path (PreviousPeerIncomplete n) =
     at_line path n @ ''previous [Peer] section is incomplete (needs Endpoint, PublicKey, Role, AllowedIPs)'' @ [NL]"
| "config_error_text reason path (TooManyPeers n) =
     at_line path n @ ''too many [Peer] sections (max '' @ show_nat CONFIG_MAX_PEERS @ '')'' @ [NL]"
| "config_error_text reason path (UnknownSection n s) = at_line path n @ ''unknown section '' @ in_quotes s @ [NL]"
| "config_error_text reason path (ExpectedKeyValue n) = at_line path n @ ''expected '' @ in_quotes ''key = value'' @ [NL]"
| "config_error_text reason path (NameTooLong n) = at_line path n @ ''Name is too long'' @ [NL]"
| "config_error_text reason path (DeviceNameTooLong n) = at_line path n @ ''DeviceName is too long'' @ [NL]"
| "config_error_text reason path (InvalidAddress n v) =
     at_line path n @ ''invalid Address '' @ in_quotes v @ '' (expected a.b.c.d/prefix)'' @ [NL]"
| "config_error_text reason path (InvalidListenPort n v) = at_line path n @ ''invalid ListenPort '' @ in_quotes v @ [NL]"
| "config_error_text reason path (InvalidPrivateKey n) =
     at_line path n @ ''invalid PrivateKey (not valid base64 or wrong length)'' @ [NL]"
| "config_error_text reason path (UnknownInterfaceKey n k) =
     at_line path n @ ''unknown key '' @ in_quotes k @ '' in [Interface]'' @ [NL]"
| "config_error_text reason path (InvalidEndpoint n v) =
     at_line path n @ ''invalid Endpoint '' @ in_quotes v @ '' (expected host:port)'' @ [NL]"
| "config_error_text reason path (InvalidPublicKey n) =
     at_line path n @ ''invalid PublicKey (not valid base64 or wrong length)'' @ [NL]"
| "config_error_text reason path (InvalidRole n v) =
     at_line path n @ ''invalid Role '' @ in_quotes v @ '' (expected initiator or responder)'' @ [NL]"
| "config_error_text reason path (InvalidAllowedIPs n v) =
     at_line path n @ ''invalid AllowedIPs '' @ in_quotes v @ '' (expected a.b.c.d/prefix)'' @ [NL]"
| "config_error_text reason path (UnknownPeerKey n k) =
     at_line path n @ ''unknown key '' @ in_quotes k @ '' in [Peer]'' @ [NL]"
| "config_error_text reason path (KeyOutsideSection n) = at_line path n @ ''key outside of a section'' @ [NL]"
| "config_error_text reason path FinalPeerIncomplete =
     ''config: '' @ path @ '': final [Peer] section is incomplete (needs Endpoint, PublicKey, Role, AllowedIPs)'' @ [NL]"
| "config_error_text reason path MissingAddress =
     ''config: '' @ path @ '': missing required Address in [Interface]'' @ [NL]"
| "config_error_text reason path MissingPrivateKey =
     ''config: '' @ path @ '': [Interface] is missing PrivateKey, required when at least one [Peer] section is present'' @ [NL]"

section \<open>Writing the log\<close>

text \<open>The messages in order, the clock reading of each first; the lines that are written.\<close>

fun write_log ::
  "(int \<Rightarrow> string) \<Rightarrow> env \<Rightarrow> string \<Rightarrow> log_state \<Rightarrow> (nat \<times> message) list \<Rightarrow> log_state \<times> (stream \<times> string) list" where
  "write_log strerror env local_name st [] = (st, [])"
| "write_log strerror env local_name st ((secs, m) # ms) =
     (case log_at env st secs (message_level m) (message_component local_name m) (message_text strerror m) of
        (st1, line) \<Rightarrow>
          (case write_log strerror env local_name st1 ms of
             (st2, lines) \<Rightarrow> (st2, (case line of None \<Rightarrow> lines | Some l \<Rightarrow> l # lines))))"

section \<open>Lengths\<close>

text \<open>The strings and the sizes a message mentions.\<close>

fun message_strings :: "message \<Rightarrow> string list" where
  "message_strings (TunOpenFailed name e) = [name]"
| "message_strings (TunConfigureFailed name e) = [name]"
| "message_strings (SessionInitFailed h) = [h]"
| "message_strings (AwaitingInit h) = [h]"
| "message_strings (UpWithPeers name a m prt n) = [name, a, m]"
| "message_strings (UpCaptureOnly name a m prt) = [name, a, m]"
| "message_strings (NotResolvable h) = [h]"
| "message_strings (InitNotSent h) = [h]"
| "message_strings (InitSent h) = [h]"
| "message_strings (NotEstablished h n) = [h]"
| "message_strings (EncryptFailed n h) = [h]"
| "message_strings (DataNotSent h e) = [h]"
| "message_strings (TunToUdp h n l) = [h]"
| "message_strings (ResponseNotSent h e) = [h]"
| "message_strings (HandshakeLearned h a p) = [h]"
| "message_strings (InitRejected h) = [h]"
| "message_strings (HandshakeComplete h) = [h]"
| "message_strings (ResponseRejected h) = [h]"
| "message_strings (DataDropped h) = [h]"
| "message_strings (KeepaliveReceived h) = [h]"
| "message_strings (UdpToTun h n l) = [h]"
| "message_strings (UnexpectedType t h) = [h]"
| "message_strings (KeepaliveNotBuilt h) = [h]"
| "message_strings (KeepaliveNotSent h e) = [h]"
| "message_strings (KeepaliveSent h) = [h]"
| "message_strings (HeardNothing h t) = [h]"
| "message_strings (RotatingKeys h t) = [h]"
| "message_strings (PeerStats h est txp txb rxp rxb hs af dr) = [h]"
| "message_strings _ = []"

fun message_sizes :: "message \<Rightarrow> nat list" where
  "message_sizes (UpWithPeers name a m prt n) = [n]"
| "message_sizes (CapturedPacket n) = [n]"
| "message_sizes (NoRoute n) = [n]"
| "message_sizes (NotEstablished h n) = [n]"
| "message_sizes (EncryptFailed n h) = [n]"
| "message_sizes (TunToUdp h n l) = [n, l]"
| "message_sizes (NoSession n) = [n]"
| "message_sizes (UdpToTun h n l) = [n, l]"
| "message_sizes _ = []"

definition message_short :: "message \<Rightarrow> bool" where
  "message_short m \<longleftrightarrow>
     (\<forall>s \<in> set (message_strings m). length s < 256) \<and> (\<forall>n \<in> set (message_sizes m). n < 65536)"

lemma show_word_length:
  "length (show_word (w :: u64)) \<le> 20" "length (show_word (w32 :: u32)) \<le> 20" "length (show_word (w16 :: u16)) \<le> 20"
  "length (show_word (b :: byte)) \<le> 20"
  unfolding show_word_def
  by (rule order_trans [OF show_nat_length [where k = 19]],
      use unsigned_less [of w, where ?'a = nat] unsigned_less [of w32, where ?'a = nat]
        unsigned_less [of w16, where ?'a = nat] unsigned_less [of b, where ?'a = nat] in simp_all)+

lemma show_endpoint_length: "length (show_endpoint a p) < 40"
  using inet_ntop_length [of a] show_word_length(3) [of "htons p"] by (simp add: show_endpoint_def)

text \<open>A short message fits the buffer, if the error texts are of reasonable length.\<close>

lemma append_le: "length xs \<le> m \<Longrightarrow> length ys \<le> n \<Longrightarrow> length (xs @ ys) \<le> m + n"
  by simp

lemma in_quotes_le: "length s \<le> n \<Longrightarrow> length (in_quotes s) \<le> n + 2"
  by (simp add: in_quotes_def)

lemma if_le: "length xs \<le> m \<Longrightarrow> length ys \<le> n \<Longrightarrow> length (if b then xs else ys) \<le> m + n"
  by simp

lemma message_text_length:
  assumes "message_short m" and "\<And>e. length (strerror e) \<le> 255"
  shows "length (message_text strerror m) < LOG_MESSAGE_BYTES"
proof -
  have "\<forall>s \<in> set (message_strings m). length s \<le> 255" "\<forall>n \<in> set (message_sizes m). length (show_nat n) \<le> 5"
    using assms(1) show_nat_length_5 by (auto simp: message_short_def)
  note args = this and leaves = assms(2) show_word_length show_endpoint_length [THEN less_imp_le]
  show ?thesis
    by (cases m; simp only: message_text.simps; rule le_less_trans;
        ((rule append_le in_quotes_le if_le leaves order_refl)+)?;
        use args in \<open>simp add: LOG_MESSAGE_BYTES_def\<close>)
qed

end
