(* ===== verification/Daemon.thy ===== *)
theory Daemon
  imports Messages Session_Safety
begin

text \<open>
  The peer daemon (\<open>src/src/main.c\<close>): the runtime state of every configured peer, the three
  kinds of work of the poll loop (packets from the interface, datagrams from the socket, timers),
  startup and shutdown. \<open>peer_session\<close> is \<open>peer_session_t\<close>; the \<open>peers\<close> array is the list of
  its first \<open>peer_count\<close> entries. Handlers return the new state and what they did to the outside
  world, in order: datagrams, packets and log calls (theory Messages). What the system answers (a packet read, whether a send succeeds, the
  clock) is an argument. Times are \<open>uint64_t\<close> milliseconds and their differences wrap around.
\<close>

section \<open>Data\<close>

definition MAX_PACKET_SIZE :: nat where [const_defs]: "MAX_PACKET_SIZE = 2048"
definition SEALED_BUF_SIZE :: nat where [const_defs]: "SEALED_BUF_SIZE = SESSION_DATA_OVERHEAD + MAX_PACKET_SIZE"
definition KEEPALIVE_INTERVAL_MS :: u64 where [const_defs]: "KEEPALIVE_INTERVAL_MS = 5000"
definition SESSION_TIMEOUT_MS :: u64 where [const_defs]: "SESSION_TIMEOUT_MS = 15000"
definition KEY_ROTATION_INTERVAL_MS :: u64 where [const_defs]: "KEY_ROTATION_INTERVAL_MS = 45000"
definition STATS_INTERVAL_MS :: u64 where [const_defs]: "STATS_INTERVAL_MS = 30000"
definition EINTR :: int where "EINTR = 4"

record peer_session =
  ps_config :: config_peer
  addr_resolved :: bool
  addr :: sockaddr_in
  sess :: session
  last_rx_activity_ms :: u64
  last_tx_activity_ms :: u64
  last_handshake_completed_ms :: u64
  stat_packets_tx :: u64
  stat_bytes_tx :: u64
  stat_packets_rx :: u64
  stat_bytes_rx :: u64
  stat_handshakes :: u64
  stat_auth_failures :: u64
  stat_drops :: u64

text \<open>The local variables of \<open>main\<close> the loop works on; \<open>rng\<close> counts the key pairs drawn.\<close>

record daemon =
  d_cfg :: config
  d_tun :: tun_device
  d_udp :: udp_socket
  rng :: nat
  d_peers :: "peer_session list"
  last_stats_ms :: u64

text \<open>A system call, a log call, or the loader's complaint about a file.\<close>

datatype effect = Net net_effect | Logged message | ConfigRejected string config_error

section \<open>Helpers\<close>

text \<open>\<open>seconds\<close> and \<open>nanoseconds\<close> are the \<open>CLOCK_MONOTONIC\<close> reading.\<close>

definition monotonic_ms :: "u64 \<Rightarrow> nat \<Rightarrow> u64" where
  "monotonic_ms seconds nanoseconds = seconds * 1000 + of_nat (nanoseconds div 1000000)"

definition initiate_handshake ::
  "sodium \<Rightarrow> resolver \<Rightarrow> nat sysret \<Rightarrow> udp_socket \<Rightarrow> nat \<Rightarrow> nat \<Rightarrow> peer_session \<Rightarrow> u64 \<Rightarrow>
     nat \<times> peer_session \<times> effect list" where
  "initiate_handshake sod getaddrinfo sent udp buf_len r ps now =
     (case (if \<not> addr_resolved ps
            then (let ps1 = ps\<lparr>last_rx_activity_ms := now\<rparr> in
                  case udp_resolve getaddrinfo (host (ps_config ps1)) (port (ps_config ps1)) of
                    None \<Rightarrow> (ps1, False)
                  | Some a \<Rightarrow> (ps1\<lparr>addr := a, addr_resolved := True\<rparr>, True))
            else (ps, True)) of
        (ps1, False) \<Rightarrow> (r, ps1, [Logged (NotResolvable (host (ps_config ps1)))])
      | (ps1, True) \<Rightarrow>
          (case session_start_handshake sod r (sess ps1) of (r', s1) \<Rightarrow>
             (let ps2 = ps1\<lparr>sess := s1, last_rx_activity_ms := now, last_tx_activity_ms := now\<rparr> in
              case session_build_init sod (sess ps2) buf_len of
                (s2, None) \<Rightarrow> (r', ps2\<lparr>sess := s2\<rparr>, [Logged (InitNotSent (host (ps_config ps2)))])
              | (s2, Some m) \<Rightarrow>
                  (case udp_send sent udp m (addr ps2) of
                     (eff, Fail _) \<Rightarrow> (r', ps2\<lparr>sess := s2\<rparr>, [Net eff, Logged (InitNotSent (host (ps_config ps2)))])
                   | (eff, Ret _) \<Rightarrow> (r', ps2\<lparr>sess := s2\<rparr>, [Net eff, Logged (InitSent (host (ps_config ps2)))])))))"

definition known_as :: "peer_session \<Rightarrow> sockaddr_in \<Rightarrow> bool" where
  "known_as ps from \<longleftrightarrow> addr_resolved ps \<and> sin_addr (addr ps) = sin_addr from \<and> sin_port (addr ps) = sin_port from"

fun find_peer_by_addr :: "peer_session list \<Rightarrow> sockaddr_in \<Rightarrow> nat option" where
  "find_peer_by_addr [] from = None"
| "find_peer_by_addr (ps # pss) from =
     (if known_as ps from then Some 0 else map_option Suc (find_peer_by_addr pss from))"

text \<open>The sessions tried before the match, and the draws they may have made, are part of the
  result.\<close>

fun find_responder_for_init ::
  "sodium \<Rightarrow> nat \<Rightarrow> peer_session list \<Rightarrow> bytes \<Rightarrow> nat \<Rightarrow> nat \<times> peer_session list \<times> (nat \<times> bytes) option" where
  "find_responder_for_init sod r [] inp out_len = (r, [], None)"
| "find_responder_for_init sod r (ps # pss) inp out_len =
     (if cfg_role (ps_config ps) \<noteq> CRYPTO_ROLE_RESPONDER then
        (case find_responder_for_init sod r pss inp out_len of
           (r', pss', res) \<Rightarrow> (r', ps # pss', map_option (apfst Suc) res))
      else
        (case session_handle_init sod r (sess ps) inp out_len of
           (r1, s1, Some response) \<Rightarrow> (r1, ps\<lparr>sess := s1\<rparr> # pss, Some (0, response))
         | (r1, s1, None) \<Rightarrow>
             (case find_responder_for_init sod r1 pss inp out_len of
                (r', pss', res) \<Rightarrow> (r', ps\<lparr>sess := s1\<rparr> # pss', map_option (apfst Suc) res))))"

definition stats_message :: "peer_session \<Rightarrow> message" where
  "stats_message ps =
     PeerStats (host (ps_config ps)) (state (sess ps) = SESSION_STATE_ESTABLISHED)
       (stat_packets_tx ps) (stat_bytes_tx ps) (stat_packets_rx ps) (stat_bytes_rx ps)
       (stat_handshakes ps) (stat_auth_failures ps) (stat_drops ps)"

definition log_stats :: "peer_session list \<Rightarrow> effect list" where
  "log_stats pss = map (\<lambda>ps. Logged (stats_message ps)) pss"

section \<open>Packets from the interface\<close>

text \<open>Writing through \<open>peers[i]\<close> or a pointer to it.\<close>

definition upd_peer :: "nat \<Rightarrow> (peer_session \<Rightarrow> peer_session) \<Rightarrow> daemon \<Rightarrow> daemon" where
  "upd_peer i f d = d\<lparr>d_peers := (d_peers d)[i := f (d_peers d ! i)]\<rparr>"

definition route_packet :: "config \<Rightarrow> bytes \<Rightarrow> int" where
  "route_packet c packet =
     (case routing_parse_ipv4_dest packet of
        Some dest \<Rightarrow> routing_find_peer_for_dest c dest
      | None \<Rightarrow> -1)"

definition handle_tun ::
  "sodium \<Rightarrow> daemon \<Rightarrow> bytes sysret \<Rightarrow> nat sysret \<Rightarrow> u64 \<Rightarrow> daemon \<times> effect list" where
  "handle_tun sod d answer sent now =
     (case tun_read answer MAX_PACKET_SIZE of
        Fail e \<Rightarrow> (d, if e \<noteq> EINTR then [Logged (TunReadFailed e)] else [])
      | Ret packet \<Rightarrow>
          if peers (d_cfg d) = [] then (d, [Logged (CapturedPacket (length packet))])
          else
            (let idx = route_packet (d_cfg d) packet in
             if idx < 0 then (d, [Logged (NoRoute (length packet))])
             else
               (let i = nat idx; ps = d_peers d ! i in
                if state (sess ps) \<noteq> SESSION_STATE_ESTABLISHED then
                  (upd_peer i (\<lambda>p. p\<lparr>stat_drops := stat_drops p + 1\<rparr>) d,
                   [Logged (NotEstablished (host (ps_config ps)) (length packet))])
                else
                  (case session_seal_data sod (sess ps) packet SEALED_BUF_SIZE of
                     (s1, None) \<Rightarrow> (upd_peer i (\<lambda>p. p\<lparr>sess := s1\<rparr>) d,
                                    [Logged (EncryptFailed (length packet) (host (ps_config ps)))])
                   | (s1, Some m) \<Rightarrow>
                       (let d1 = upd_peer i (\<lambda>p. p\<lparr>sess := s1\<rparr>) d in
                        case udp_send sent (d_udp d) m (addr ps) of
                          (eff, Fail e) \<Rightarrow> (d1, [Net eff, Logged (DataNotSent (host (ps_config ps)) e)])
                        | (eff, Ret _) \<Rightarrow>
                            (upd_peer i (\<lambda>p. p\<lparr>last_tx_activity_ms := now,
                               stat_packets_tx := stat_packets_tx p + 1,
                               stat_bytes_tx := stat_bytes_tx p + of_nat (length m)\<rparr>) d1,
                             [Net eff, Logged (TunToUdp (host (ps_config ps)) (length packet) (length m))]))))))"

section \<open>Datagrams from the socket\<close>

text \<open>A completed handshake restarts the three clocks of the peer (the responder has just sent,
  too).\<close>

definition handshake_done :: "bool \<Rightarrow> u64 \<Rightarrow> peer_session \<Rightarrow> peer_session" where
  "handshake_done sent now p =
     (let p1 = p\<lparr>last_rx_activity_ms := now,
          last_tx_activity_ms := (if sent then now else last_tx_activity_ms p)\<rparr>
      in p1\<lparr>last_handshake_completed_ms := last_rx_activity_ms p1, stat_handshakes := stat_handshakes p1 + 1\<rparr>)"

text \<open>A handshake init from an address no peer is known under.\<close>

definition handle_unknown_init ::
  "sodium \<Rightarrow> daemon \<Rightarrow> bytes \<Rightarrow> sockaddr_in \<Rightarrow> nat sysret \<Rightarrow> u64 \<Rightarrow> daemon \<times> effect list" where
  "handle_unknown_init sod d inp from sent now =
     (case find_responder_for_init sod (rng d) (d_peers d) inp SESSION_HANDSHAKE_MSG_LEN of
        (r, pss, None) \<Rightarrow>
          (d\<lparr>rng := r, d_peers := pss\<rparr>, [Logged (InitUnauthenticated (sin_addr from) (sin_port from))])
      | (r, pss, Some (i, response)) \<Rightarrow>
          (let d1 = d\<lparr>rng := r, d_peers := pss\<rparr> in
           case udp_send sent (d_udp d) response from of
             (eff, Fail e) \<Rightarrow> (d1, [Net eff, Logged (ResponseNotSent (host (ps_config (pss ! i))) e)])
           | (eff, Ret _) \<Rightarrow>
               (upd_peer i (\<lambda>p. handshake_done True now (p\<lparr>addr := from, addr_resolved := True\<rparr>)) d1,
                [Net eff, Logged (HandshakeLearned (host (ps_config (pss ! i))) (sin_addr from) (sin_port from))])))"

text \<open>A datagram from the address of peer \<open>i\<close>.\<close>

definition handle_known ::
  "sodium \<Rightarrow> daemon \<Rightarrow> nat \<Rightarrow> bytes \<Rightarrow> nat sysret \<Rightarrow> nat sysret \<Rightarrow> u64 \<Rightarrow> daemon \<times> effect list" where
  "handle_known sod d i inp sent written now =
     (let ps = d_peers d ! i in
      if inp ! 0 = SESSION_MSG_HANDSHAKE_INIT \<and> cfg_role (ps_config ps) = CRYPTO_ROLE_RESPONDER then
        (case session_handle_init sod (rng d) (sess ps) inp SESSION_HANDSHAKE_MSG_LEN of
           (r, s1, None) \<Rightarrow>
             (upd_peer i (\<lambda>p. p\<lparr>sess := s1, stat_auth_failures := stat_auth_failures p + 1\<rparr>) (d\<lparr>rng := r\<rparr>),
              [Logged (InitRejected (host (ps_config ps)))])
         | (r, s1, Some response) \<Rightarrow>
             (let d1 = upd_peer i (\<lambda>p. p\<lparr>sess := s1\<rparr>) (d\<lparr>rng := r\<rparr>) in
              case udp_send sent (d_udp d) response (addr ps) of
                (eff, Fail e) \<Rightarrow> (d1, [Net eff, Logged (ResponseNotSent (host (ps_config ps)) e)])
              | (eff, Ret _) \<Rightarrow>
                  (upd_peer i (handshake_done True now) d1, [Net eff, Logged (HandshakeComplete (host (ps_config ps)))])))
      else if inp ! 0 = SESSION_MSG_HANDSHAKE_RESPONSE \<and> cfg_role (ps_config ps) = CRYPTO_ROLE_INITIATOR then
        (case session_handle_response sod (sess ps) inp of
           (s1, False) \<Rightarrow>
             (upd_peer i (\<lambda>p. p\<lparr>sess := s1, stat_auth_failures := stat_auth_failures p + 1\<rparr>) d,
              [Logged (ResponseRejected (host (ps_config ps)))])
         | (s1, True) \<Rightarrow>
             (upd_peer i (\<lambda>p. handshake_done False now (p\<lparr>sess := s1\<rparr>)) d,
              [Logged (HandshakeComplete (host (ps_config ps)))]))
      else if inp ! 0 = SESSION_MSG_DATA then
        (case session_open_data sod (sess ps) inp MAX_PACKET_SIZE of
           (s1, Opened payload) \<Rightarrow>
             (let d1 = upd_peer i (\<lambda>p. p\<lparr>sess := s1\<rparr>) d in
              if payload = [] then
                (upd_peer i (\<lambda>p. p\<lparr>last_rx_activity_ms := now\<rparr>) d1,
                 [Logged (KeepaliveReceived (host (ps_config ps)))])
              else
                (case tun_write written (d_tun d) payload of
                   (eff, Fail e) \<Rightarrow> (d1, [Net eff, Logged (TunWriteFailed e)])
                 | (eff, Ret _) \<Rightarrow>
                     (upd_peer i (\<lambda>p. p\<lparr>last_rx_activity_ms := now,
                        stat_packets_rx := stat_packets_rx p + 1,
                        stat_bytes_rx := stat_bytes_rx p + of_nat (length inp)\<rparr>) d1,
                      [Net eff, Logged (UdpToTun (host (ps_config ps)) (length payload) (length inp))])))
         | (s1, _) \<Rightarrow>
             (upd_peer i (\<lambda>p. p\<lparr>sess := s1, stat_auth_failures := stat_auth_failures p + 1,
                stat_drops := stat_drops p + 1\<rparr>) d, [Logged (DataDropped (host (ps_config ps)))]))
      else
        (upd_peer i (\<lambda>p. p\<lparr>stat_drops := stat_drops p + 1\<rparr>) d,
         [Logged (UnexpectedType (inp ! 0) (host (ps_config ps)))]))"

definition handle_udp ::
  "sodium \<Rightarrow> daemon \<Rightarrow> (bytes \<times> sockaddr_in) sysret \<Rightarrow> nat sysret \<Rightarrow> nat sysret \<Rightarrow> u64 \<Rightarrow> daemon \<times> effect list" where
  "handle_udp sod d answer sent written now =
     (case udp_recv answer SEALED_BUF_SIZE of
        Fail e \<Rightarrow> (d, if e \<noteq> EINTR then [Logged (UdpRecvFailed e)] else [])
      | Ret (inp, from) \<Rightarrow>
          if peers (d_cfg d) = [] \<or> length inp < 1 then (d, [Logged (NoSession (length inp))])
          else
            (case find_peer_by_addr (d_peers d) from of
               None \<Rightarrow>
                 if inp ! 0 = SESSION_MSG_HANDSHAKE_INIT then handle_unknown_init sod d inp from sent now
                 else (d, [Logged (Unrecognized (sin_addr from) (sin_port from))])
             | Some i \<Rightarrow> handle_known sod d i inp sent written now))"

section \<open>Timers\<close>

text \<open>What the system answers to one peer's timers: the two sends and the resolver.\<close>

record timer_answers =
  ans_keepalive :: "nat sysret"
  ans_init :: "nat sysret"
  ans_resolve :: resolver

definition keepalive_timer ::
  "sodium \<Rightarrow> nat sysret \<Rightarrow> udp_socket \<Rightarrow> u64 \<Rightarrow> peer_session \<Rightarrow> peer_session \<times> effect list" where
  "keepalive_timer sod sent udp now ps =
     (if addr_resolved ps \<and> state (sess ps) = SESSION_STATE_ESTABLISHED \<and>
         now - last_tx_activity_ms ps \<ge> KEEPALIVE_INTERVAL_MS then
        (case (case session_seal_data sod (sess ps) [] SEALED_BUF_SIZE of
                 (s1, None) \<Rightarrow> (ps\<lparr>sess := s1\<rparr>, [Logged (KeepaliveNotBuilt (host (ps_config ps)))])
               | (s1, Some m) \<Rightarrow>
                   (case udp_send sent udp m (addr ps) of
                      (eff, Fail e) \<Rightarrow>
                        (ps\<lparr>sess := s1\<rparr>, [Net eff, Logged (KeepaliveNotSent (host (ps_config ps)) e)])
                    | (eff, Ret _) \<Rightarrow>
                        (ps\<lparr>sess := s1, stat_packets_tx := stat_packets_tx ps + 1,
                            stat_bytes_tx := stat_bytes_tx ps + of_nat (length m)\<rparr>,
                         [Net eff, Logged (KeepaliveSent (host (ps_config ps)))]))) of
           (ps1, eff) \<Rightarrow> (ps1\<lparr>last_tx_activity_ms := now\<rparr>, eff))
      else (ps, []))"

definition handshake_timer ::
  "sodium \<Rightarrow> timer_answers \<Rightarrow> udp_socket \<Rightarrow> u64 \<Rightarrow> nat \<Rightarrow> peer_session \<Rightarrow> nat \<times> peer_session \<times> effect list" where
  "handshake_timer sod ans udp now r ps =
     (if cfg_role (ps_config ps) = CRYPTO_ROLE_INITIATOR \<and> now - last_rx_activity_ms ps \<ge> SESSION_TIMEOUT_MS then
        (case initiate_handshake sod (ans_resolve ans) (ans_init ans) udp SEALED_BUF_SIZE r ps now of
           (r', ps', eff) \<Rightarrow>
             (r', ps', (if addr_resolved ps
                        then [Logged (HeardNothing (host (ps_config ps)) (ucast (now - last_rx_activity_ms ps)))] else []) @ eff))
      else if cfg_role (ps_config ps) = CRYPTO_ROLE_INITIATOR \<and> state (sess ps) = SESSION_STATE_ESTABLISHED \<and>
              now - last_handshake_completed_ms ps \<ge> KEY_ROTATION_INTERVAL_MS then
        (case initiate_handshake sod (ans_resolve ans) (ans_init ans) udp SEALED_BUF_SIZE r ps now of
           (r', ps', eff) \<Rightarrow>
             (r', ps', Logged (RotatingKeys (host (ps_config ps)) (ucast (now - last_handshake_completed_ms ps))) # eff))
      else (r, ps, []))"

definition peer_timers ::
  "sodium \<Rightarrow> timer_answers \<Rightarrow> udp_socket \<Rightarrow> u64 \<Rightarrow> nat \<Rightarrow> peer_session \<Rightarrow> nat \<times> peer_session \<times> effect list" where
  "peer_timers sod ans udp now r ps =
     (case keepalive_timer sod (ans_keepalive ans) udp now ps of (ps1, eff1) \<Rightarrow>
        (case handshake_timer sod ans udp now r ps1 of (r', ps2, eff2) \<Rightarrow> (r', ps2, eff1 @ eff2)))"

fun all_timers ::
  "sodium \<Rightarrow> (nat \<Rightarrow> timer_answers) \<Rightarrow> udp_socket \<Rightarrow> u64 \<Rightarrow> nat \<Rightarrow> nat \<Rightarrow> peer_session list \<Rightarrow>
     nat \<times> peer_session list \<times> effect list" where
  "all_timers sod ans udp now i r [] = (r, [], [])"
| "all_timers sod ans udp now i r (ps # pss) =
     (case peer_timers sod (ans i) udp now r ps of (r1, ps', eff1) \<Rightarrow>
        (case all_timers sod ans udp now (Suc i) r1 pss of (r2, pss', eff2) \<Rightarrow> (r2, ps' # pss', eff1 @ eff2)))"

definition handle_timers :: "sodium \<Rightarrow> daemon \<Rightarrow> (nat \<Rightarrow> timer_answers) \<Rightarrow> u64 \<Rightarrow> daemon \<times> effect list" where
  "handle_timers sod d ans now =
     (if peers (d_cfg d) \<noteq> [] then
        (case all_timers sod ans (d_udp d) now 0 (rng d) (d_peers d) of (r, pss, eff) \<Rightarrow>
           (let d1 = d\<lparr>rng := r, d_peers := pss\<rparr> in
              if now - last_stats_ms d1 \<ge> STATS_INTERVAL_MS
              then (d1\<lparr>last_stats_ms := now\<rparr>, eff @ log_stats (d_peers d1))
              else (d1, eff)))
      else (d, []))"

section \<open>The loop\<close>

text \<open>One iteration: the value of \<open>g_running\<close> at its head, what \<open>poll\<close> answers (an error, or the
  two \<open>POLLIN\<close> flags, both false on a timeout), and what the system answers to the work done.\<close>

datatype poll_answer = PollError int | PollReady bool bool

record iteration =
  it_running :: bool
  it_poll :: poll_answer
  it_packet :: "bytes sysret"
  it_tun_sent :: "nat sysret"
  it_tun_now :: u64
  it_datagram :: "(bytes \<times> sockaddr_in) sysret"
  it_udp_sent :: "nat sysret"
  it_written :: "nat sysret"
  it_udp_now :: u64
  it_timers :: "nat \<Rightarrow> timer_answers"
  it_now :: u64

text \<open>The result says whether the loop goes on.\<close>

definition loop_body :: "sodium \<Rightarrow> daemon \<Rightarrow> iteration \<Rightarrow> daemon \<times> effect list \<times> bool" where
  "loop_body sod d it =
     (case it_poll it of
        PollError e \<Rightarrow> if e = EINTR then (d, [], True) else (d, [Logged (PollFailed e)], False)
      | PollReady tun_in udp_in \<Rightarrow>
          (case (if tun_in then handle_tun sod d (it_packet it) (it_tun_sent it) (it_tun_now it) else (d, [])) of
             (d1, eff1) \<Rightarrow>
               (case (if udp_in then handle_udp sod d1 (it_datagram it) (it_udp_sent it) (it_written it) (it_udp_now it)
                      else (d1, [])) of
                  (d2, eff2) \<Rightarrow>
                    (case handle_timers sod d2 (it_timers it) (it_now it) of
                       (d3, eff3) \<Rightarrow> (d3, eff1 @ eff2 @ eff3, True)))))"

fun main_loop :: "sodium \<Rightarrow> daemon \<Rightarrow> iteration list \<Rightarrow> daemon \<times> effect list" where
  "main_loop sod d [] = (d, [])"
| "main_loop sod d (it # its) =
     (if \<not> it_running it then (d, [])
      else (case loop_body sod d it of
              (d1, eff1, False) \<Rightarrow> (d1, eff1)
            | (d1, eff1, True) \<Rightarrow> (case main_loop sod d1 its of (d2, eff2) \<Rightarrow> (d2, eff1 @ eff2))))"

section \<open>Startup and shutdown\<close>

definition DEFAULT_CONFIG_PATH :: string where
  "DEFAULT_CONFIG_PATH = ''/etc/edgarvpn/edgarvpn.conf''"

definition config_path :: "env \<Rightarrow> string" where
  "config_path env =
     (case env ''CONFIG_FILE'' of
        None \<Rightarrow> DEFAULT_CONFIG_PATH
      | Some v \<Rightarrow> if v = [] then DEFAULT_CONFIG_PATH else v)"

text \<open>What the system answers during startup and shutdown; the functions of a number are indexed
  by the peer.\<close>

record start_answers =
  st_env :: env
  st_files :: "string \<Rightarrow> string option"
  st_tun_open :: tun_open_answers
  st_tun_configure :: tun_configure_answers
  st_udp_bind :: udp_bind_answers
  st_tun_close :: int
  st_udp_close :: int
  st_wall_clock :: "nat \<Rightarrow> u64"
  st_now :: "nat \<Rightarrow> u64"
  st_init_now :: "nat \<Rightarrow> u64"
  st_resolve :: "nat \<Rightarrow> resolver"
  st_sent :: "nat \<Rightarrow> nat sysret"
  st_stats_now :: u64

text \<open>An entry of \<open>peers\<close> after \<open>memset\<close> and the assignment of its \<open>config\<close>.\<close>

definition zero_peer_session :: "config_peer \<Rightarrow> peer_session" where
  "zero_peer_session cp =
     \<lparr>ps_config = cp, addr_resolved = False, addr = \<lparr>sin_addr = 0, sin_port = 0\<rparr>, sess = session_zero,
      last_rx_activity_ms = 0, last_tx_activity_ms = 0, last_handshake_completed_ms = 0,
      stat_packets_tx = 0, stat_bytes_tx = 0, stat_packets_rx = 0, stat_bytes_rx = 0,
      stat_handshakes = 0, stat_auth_failures = 0, stat_drops = 0\<rparr>"

fun start_peers ::
  "sodium \<Rightarrow> start_answers \<Rightarrow> bytes \<Rightarrow> bytes \<Rightarrow> udp_socket \<Rightarrow> nat \<Rightarrow> nat \<Rightarrow> config_peer list \<Rightarrow>
     nat \<times> peer_session list \<times> effect list \<times> bool" where
  "start_peers sod ans local_pk sk udp i r [] = (r, [], [], True)"
| "start_peers sod ans local_pk sk udp i r (cp # cps) =
     (case session_init sod r (st_wall_clock ans i) (cfg_role cp) local_pk sk (public_key cp) of
        None \<Rightarrow> (r, [], [Logged (SessionInitFailed (host cp))], False)
      | Some (r1, s) \<Rightarrow>
          (let ps = (zero_peer_session cp)\<lparr>sess := s, last_rx_activity_ms := st_now ans i\<rparr> in
           case (if cfg_role cp = CRYPTO_ROLE_INITIATOR
                 then initiate_handshake sod (st_resolve ans i) (st_sent ans i) udp SEALED_BUF_SIZE r1 ps (st_init_now ans i)
                 else (r1, ps, [Logged (AwaitingInit (host cp))])) of
             (r2, ps', eff1) \<Rightarrow>
               (case start_peers sod ans local_pk sk udp (Suc i) r2 cps of
                  (r3, pss, eff2, ok) \<Rightarrow> (r3, ps' # pss, eff1 @ eff2, ok))))"

datatype start_result = Exit int | Running daemon

definition daemon_start :: "sodium \<Rightarrow> start_answers \<Rightarrow> kernel \<Rightarrow> kernel \<times> effect list \<times> start_result" where
  "daemon_start sod ans k =
     (if crypto_init sod \<noteq> 0 then (k, [Logged CryptoInitFailed], Exit 1)
      else case config_load sod (st_files ans (config_path (st_env ans))) of
        Inl e \<Rightarrow> (k, [ConfigRejected (config_path (st_env ans)) e], Exit 1)
      | Inr c \<Rightarrow>
          (case tun_open (st_tun_open ans) k (tun_name c) of (k1, tun, rc1) \<Rightarrow>
             if rc1 \<noteq> 0 then (k1, [Logged (TunOpenFailed (tun_name c) (errno k1))], Exit 1)
             else (case tun_configure (st_tun_configure ans) k1 tun (tun_address c) (tun_netmask c) of (k2, _, rc2) \<Rightarrow>
               if rc2 \<noteq> 0 then (fst (tun_close (st_tun_close ans) k2 tun),
                                  [Logged (TunConfigureFailed (dev_name tun) (errno k2))], Exit 1)
               else (case udp_bind (st_udp_bind ans) k2 (listen_port c) of (k3, udp, rc3) \<Rightarrow>
                 if rc3 \<noteq> 0 then (fst (tun_close (st_tun_close ans) k3 tun),
                                    [Logged (UdpBindFailed (listen_port c) (errno k3))], Exit 1)
                 else if peers c \<noteq> [] then
                   (case start_peers sod ans (crypto_derive_public_key sod (private_key c)) (private_key c) udp 0 0 (peers c) of
                      (r, pss, eff, ok) \<Rightarrow>
                        if \<not> ok then
                          (fst (tun_close (st_tun_close ans) (fst (udp_close (st_udp_close ans) k3 udp)) tun), eff, Exit 1)
                        else
                          (k3, eff @ [Logged (UpWithPeers (dev_name tun) (tun_address c) (tun_netmask c) (listen_port c)
                              (length (peers c)))],
                           Running \<lparr>d_cfg = c, d_tun = tun, d_udp = udp, rng = r, d_peers = pss,
                                    last_stats_ms = st_stats_now ans\<rparr>))
                 else
                   (k3, [Logged (UpCaptureOnly (dev_name tun) (tun_address c) (tun_netmask c) (listen_port c))],
                    Running \<lparr>d_cfg = c, d_tun = tun, d_udp = udp, rng = 0, d_peers = [],
                             last_stats_ms = st_stats_now ans\<rparr>)))))"

definition daemon_shutdown :: "start_answers \<Rightarrow> kernel \<Rightarrow> daemon \<Rightarrow> kernel \<times> effect list" where
  "daemon_shutdown ans k d =
     (fst (tun_close (st_tun_close ans) (fst (udp_close (st_udp_close ans) k (d_udp d))) (d_tun d)),
      [Logged ShuttingDown])"

definition daemon_main ::
  "sodium \<Rightarrow> start_answers \<Rightarrow> iteration list \<Rightarrow> kernel \<Rightarrow> kernel \<times> effect list \<times> int" where
  "daemon_main sod ans its k =
     (case daemon_start sod ans k of
        (k1, eff1, Exit code) \<Rightarrow> (k1, eff1, code)
      | (k1, eff1, Running d) \<Rightarrow>
          (case main_loop sod d its of (d', eff2) \<Rightarrow>
             (case daemon_shutdown ans k1 d' of (k2, eff3) \<Rightarrow> (k2, eff1 @ eff2 @ eff3, 0))))"

end
