(* ===== verification/Daemon_Refinement.thy ===== *)
theory Daemon_Refinement
  imports Daemon Process
begin

text \<open>
  The daemon implements the machine of theory Process. Every handler, and so every run of the loop,
  is simulated: the sessions of its peers are those of a run of that machine, and what it sends and
  writes, in order, is exactly what the calls of that run returned. Addresses, clocks, statistics and
  logs have no counterpart in the machine and no influence on its guarantees, which the daemon
  inherits: over any run of the loop no nonce is used twice under one key, no data packet is
  accepted twice under one key, and no handshake message repeats a counter.
\<close>

section \<open>Simulation\<close>

text \<open>What of the daemon the abstract machine sees.\<close>

definition proc_of :: "nat \<Rightarrow> peer_session list \<Rightarrow> process" where
  "proc_of r ps = (r, map sess ps)"

fun emission_of :: "net_effect \<Rightarrow> emission" where
  "emission_of (TunWrite _ p) = Packet p"
| "emission_of (UdpSend _ _ m) = Datagram m"

fun emitted :: "effect list \<Rightarrow> emission list" where
  "emitted [] = []"
| "emitted (Net e # es) = emission_of e # emitted es"
| "emitted (Logged _ # es) = emitted es"
| "emitted (ConfigRejected _ _ # es) = emitted es"

lemma emitted_append [simp]: "emitted (xs @ ys) = emitted xs @ emitted ys"
  by (induction xs rule: emitted.induct) simp_all

lemma emitted_log_stats [simp]: "emitted (log_stats ps) = []"
  by (induction ps) (simp_all add: log_stats_def)

lemma emission_of_send [simp]:
  "emission_of (fst (udp_send sent udp m a)) = Datagram m"
  "emission_of (fst (tun_write written tun p)) = Packet p"
  by (simp_all add: udp_send_def tun_write_def)

text \<open>From \<open>r\<close> draws and peers \<open>ps\<close> to \<open>r'\<close> draws and peers \<open>ps'\<close>, emitting \<open>em\<close>: the same peers, and a
  run of the abstract machine between their sessions.\<close>

definition simulates ::
  "sodium \<Rightarrow> nat \<Rightarrow> peer_session list \<Rightarrow> emission list \<Rightarrow> nat \<Rightarrow> peer_session list \<Rightarrow> bool" where
  "simulates sod r ps em r' ps' \<longleftrightarrow> map ps_config ps' = map ps_config ps \<and>
     (\<exists>xs. (\<forall>x \<in> set xs. fst x < length ps) \<and> proc_run sod (proc_of r ps) xs = proc_of r' ps' \<and>
        proc_outputs sod (proc_of r ps) xs = em)"

lemma simulates_length: "simulates sod r ps em r' ps' \<Longrightarrow> length ps' = length ps"
  unfolding simulates_def by (metis length_map)

text \<open>No call: only fields the abstract machine does not see.\<close>

lemma simulates_fields:
  "map ps_config ps' = map ps_config ps \<Longrightarrow> map sess ps' = map sess ps \<Longrightarrow> simulates sod r ps [] r ps'"
  unfolding simulates_def by (intro conjI exI [of _ "[]"]) (simp_all add: proc_of_def)

lemma simulates_refl [simp, intro]: "simulates sod r ps [] r ps"
  by (rule simulates_fields) simp_all

lemma simulates_trans:
  assumes "simulates sod r ps em r' ps'" and "simulates sod r' ps' em' r'' ps''"
  shows "simulates sod r ps (em @ em') r'' ps''"
proof -
  note len = simulates_length [OF assms(1)]
  from assms(1) obtain xs where xs: "\<forall>x \<in> set xs. fst x < length ps" "proc_run sod (proc_of r ps) xs = proc_of r' ps'"
    "proc_outputs sod (proc_of r ps) xs = em"
    by (auto simp: simulates_def)
  from assms(2) obtain ys where ys: "\<forall>x \<in> set ys. fst x < length ps" "proc_run sod (proc_of r' ps') ys = proc_of r'' ps''"
    "proc_outputs sod (proc_of r' ps') ys = em'"
    by (auto simp: simulates_def len)
  have "\<forall>x \<in> set (xs @ ys). fst x < length ps" using xs(1) ys(1) by (simp only: set_append ball_Un)
  moreover have "map ps_config ps'' = map ps_config ps" using assms by (simp add: simulates_def)
  moreover have "proc_run sod (proc_of r ps) (xs @ ys) = proc_of r'' ps''"
    "proc_outputs sod (proc_of r ps) (xs @ ys) = em @ em'"
    using xs ys by (simp_all add: run_append proc_outputs_append)
  ultimately show ?thesis unfolding simulates_def by blast
qed

text \<open>One call on peer \<open>i\<close>, together with whatever else is written to the peer.\<close>

lemma simulates_call:
  assumes "i < length ps" and "session_step sod (r, sess (ps ! i)) e = (r', sess p')"
    and "call_output sod (r, sess (ps ! i)) e = em" and "ps_config p' = ps_config (ps ! i)"
  shows "simulates sod r ps em r' (ps[i := p'])"
  unfolding simulates_def
proof (intro conjI exI [of _ "[(i, e)]"])
  show "map ps_config (ps[i := p']) = map ps_config ps"
    using assms(1,4) by (simp add: map_update list_update_same_conv)
qed (use assms in \<open>simp_all add: proc_of_def map_update\<close>)

text \<open>The peers around the ones concerned stay as they are.\<close>

lemma simulates_frame:
  assumes "simulates sod r ps em r' ps'"
  shows "simulates sod r (as @ ps @ bs) em r' (as @ ps' @ bs)"
proof -
  from assms obtain xs where xs: "\<forall>x \<in> set xs. fst x < length ps" "proc_run sod (proc_of r ps) xs = proc_of r' ps'"
    "proc_outputs sod (proc_of r ps) xs = em" "map ps_config ps' = map ps_config ps"
    by (auto simp: simulates_def)
  have "proc_run sod (r, map sess as @ map sess ps @ map sess bs) (proc_shift (length (map sess as)) xs) =
      (r', map sess as @ map sess ps' @ map sess bs) \<and>
    proc_outputs sod (r, map sess as @ map sess ps @ map sess bs) (proc_shift (length (map sess as)) xs) =
      proc_outputs sod (r, map sess ps) xs"
    by (rule proc_run_frame) (use xs in \<open>simp_all add: proc_of_def\<close>)
  moreover have "fst x < length (as @ ps @ bs)" if "x \<in> set (proc_shift (length as) xs)" for x
    using that xs(1) by (fastforce simp: proc_shift_def)
  ultimately show ?thesis
    using xs by (auto simp: simulates_def proc_of_def simp del: length_append intro!: exI [of _ "proc_shift (length as) xs"])
qed

lemma simulates_Cons: "simulates sod r ps em r' ps' \<Longrightarrow> simulates sod r (p # ps) em r' (p # ps')"
  using simulates_frame [of sod r ps em r' ps' "[p]" "[]"] by simp

lemma simulates_head: "simulates sod r [p] em r' [p'] \<Longrightarrow> simulates sod r (p # ps) em r' (p' # ps)"
  using simulates_frame [of sod r "[p]" em r' "[p']" "[]" ps] by simp

lemma handshake_done_simps [simp, frame_simps]:
  "sess (handshake_done b now p) = sess p"
  "ps_config (handshake_done b now p) = ps_config p"
  "addr (handshake_done b now p) = addr p"
  "addr_resolved (handshake_done b now p) = addr_resolved p"
  "last_rx_activity_ms (handshake_done b now p) = now"
  by (simp_all add: handshake_done_def Let_def)

text \<open>The branches for a datagram from a known address, each as one write to the peer.\<close>

lemma upd_peer_twice: "upd_peer i g (upd_peer i f d) = upd_peer i (\<lambda>p. g (f p)) d"
  by (cases "i < length (d_peers d)") (simp_all add: upd_peer_def list_update_beyond)

lemma handle_known_cases:
  assumes "handle_known sod d i inp sent written now = (d', eff)"
  obtains (init_refused) r s where
      "inp ! 0 = SESSION_MSG_HANDSHAKE_INIT" "cfg_role (ps_config (d_peers d ! i)) = CRYPTO_ROLE_RESPONDER"
      "session_handle_init sod (rng d) (sess (d_peers d ! i)) inp SESSION_HANDSHAKE_MSG_LEN = (r, s, None)"
      "d' = upd_peer i (\<lambda>p. p\<lparr>sess := s, stat_auth_failures := stat_auth_failures p + 1\<rparr>) (d\<lparr>rng := r\<rparr>)"
      "eff = [Logged (InitRejected (host (ps_config (d_peers d ! i))))]"
  | (init_answered) r s m f l where
      "inp ! 0 = SESSION_MSG_HANDSHAKE_INIT" "cfg_role (ps_config (d_peers d ! i)) = CRYPTO_ROLE_RESPONDER"
      "session_handle_init sod (rng d) (sess (d_peers d ! i)) inp SESSION_HANDSHAKE_MSG_LEN = (r, s, Some m)"
      "d' = upd_peer i (\<lambda>p. f (p\<lparr>sess := s\<rparr>)) (d\<lparr>rng := r\<rparr>)"
      "f = (case sent of Fail _ \<Rightarrow> id | Ret _ \<Rightarrow> handshake_done True now)"
      "eff = [Net (fst (udp_send sent (d_udp d) m (addr (d_peers d ! i)))), Logged l]"
  | (response_refused) s where
      "inp ! 0 = SESSION_MSG_HANDSHAKE_RESPONSE" "cfg_role (ps_config (d_peers d ! i)) = CRYPTO_ROLE_INITIATOR"
      "session_handle_response sod (sess (d_peers d ! i)) inp = (s, False)"
      "d' = upd_peer i (\<lambda>p. p\<lparr>sess := s, stat_auth_failures := stat_auth_failures p + 1\<rparr>) d"
      "eff = [Logged (ResponseRejected (host (ps_config (d_peers d ! i))))]"
  | (response_accepted) s where
      "inp ! 0 = SESSION_MSG_HANDSHAKE_RESPONSE" "cfg_role (ps_config (d_peers d ! i)) = CRYPTO_ROLE_INITIATOR"
      "session_handle_response sod (sess (d_peers d ! i)) inp = (s, True)"
      "d' = upd_peer i (\<lambda>p. handshake_done False now (p\<lparr>sess := s\<rparr>)) d"
      "eff = [Logged (HandshakeComplete (host (ps_config (d_peers d ! i))))]"
  | (keepalive) s where
      "session_open_data sod (sess (d_peers d ! i)) inp MAX_PACKET_SIZE = (s, Opened [])"
      "d' = upd_peer i (\<lambda>p. p\<lparr>sess := s, last_rx_activity_ms := now\<rparr>) d"
      "eff = [Logged (KeepaliveReceived (host (ps_config (d_peers d ! i))))]"
  | (delivered) s payload f l where
      "session_open_data sod (sess (d_peers d ! i)) inp MAX_PACKET_SIZE = (s, Opened payload)" "payload \<noteq> []"
      "d' = upd_peer i (\<lambda>p. f (p\<lparr>sess := s\<rparr>)) d"
      "f = (case written of Fail _ \<Rightarrow> id | Ret _ \<Rightarrow> (\<lambda>p. p\<lparr>last_rx_activity_ms := now,
         stat_packets_rx := stat_packets_rx p + 1, stat_bytes_rx := stat_bytes_rx p + of_nat (length inp)\<rparr>))"
      "eff = [Net (fst (tun_write written (d_tun d) payload)), Logged l]"
  | (data_refused) s x where
      "session_open_data sod (sess (d_peers d ! i)) inp MAX_PACKET_SIZE = (s, x)" "\<And>q. x \<noteq> Opened q"
      "d' = upd_peer i (\<lambda>p. p\<lparr>sess := s, stat_auth_failures := stat_auth_failures p + 1,
         stat_drops := stat_drops p + 1\<rparr>) d"
      "eff = [Logged (DataDropped (host (ps_config (d_peers d ! i))))]"
  | (dropped) "d' = upd_peer i (\<lambda>p. p\<lparr>stat_drops := stat_drops p + 1\<rparr>) d" 
      "eff = [Logged (UnexpectedType (inp ! 0) (host (ps_config (d_peers d ! i))))]"
proof -
  let ?p = "d_peers d ! i"
  consider (init) "inp ! 0 = SESSION_MSG_HANDSHAKE_INIT" "cfg_role (ps_config ?p) = CRYPTO_ROLE_RESPONDER"
    | (response) "inp ! 0 = SESSION_MSG_HANDSHAKE_RESPONSE" "cfg_role (ps_config ?p) = CRYPTO_ROLE_INITIATOR"
    | (data) "inp ! 0 = SESSION_MSG_DATA"
    | (other) "\<not> (inp ! 0 = SESSION_MSG_HANDSHAKE_INIT \<and> cfg_role (ps_config ?p) = CRYPTO_ROLE_RESPONDER)"
        "\<not> (inp ! 0 = SESSION_MSG_HANDSHAKE_RESPONSE \<and> cfg_role (ps_config ?p) = CRYPTO_ROLE_INITIATOR)"
        "inp ! 0 \<noteq> SESSION_MSG_DATA"
    by blast
  then show thesis
  proof cases
    case init
    obtain r s m where h: "session_handle_init sod (rng d) (sess ?p) inp SESSION_HANDSHAKE_MSG_LEN = (r, s, m)"
      by (cases "session_handle_init sod (rng d) (sess ?p) inp SESSION_HANDSHAKE_MSG_LEN") auto
    show thesis
    proof (cases m)
      case None
      with h init assms show thesis by (auto simp: handle_known_def Let_def intro: init_refused)
    next
      case (Some resp)
      show thesis
        by (rule init_answered [OF init h [unfolded Some] _ refl, where
            l = "case sent of Fail e \<Rightarrow> ResponseNotSent (host (ps_config ?p)) e | Ret _ \<Rightarrow> HandshakeComplete (host (ps_config ?p))"])
          (use h Some init assms in \<open>auto simp: handle_known_def Let_def udp_send_def upd_peer_twice split: sysret.splits\<close>)
    qed
  next
    case response
    obtain s b where h: "session_handle_response sod (sess ?p) inp = (s, b)" by fastforce
    with response assms show thesis
      by (cases b) (auto simp: handle_known_def Let_def const_defs intro: response_refused response_accepted)
  next
    case data
    obtain s x where h: "session_open_data sod (sess ?p) inp MAX_PACKET_SIZE = (s, x)" by fastforce
    have neq: "inp ! 0 \<noteq> SESSION_MSG_HANDSHAKE_INIT" "inp ! 0 \<noteq> SESSION_MSG_HANDSHAKE_RESPONSE"
      using data by (simp_all add: const_defs)
    show thesis
    proof (cases x)
      case (Opened q)
      show thesis
      proof (cases "q = []")
        case True
        with h Opened data neq assms show thesis
          by (auto simp: handle_known_def Let_def upd_peer_twice intro: keepalive)
      next
        case False
        show thesis
          by (rule delivered [OF h [unfolded Opened] False _ refl, where
              l = "case written of Fail e \<Rightarrow> TunWriteFailed e | Ret _ \<Rightarrow> UdpToTun (host (ps_config ?p)) (length q) (length inp)"])
            (use h Opened False data neq assms in
              \<open>auto simp: handle_known_def Let_def tun_write_def upd_peer_twice split: sysret.splits\<close>)
      qed
    qed (use h data neq assms in \<open>auto simp: handle_known_def Let_def intro: data_refused\<close>)
  next
    case other
    with assms show thesis by (auto simp: handle_known_def Let_def intro: dropped)
  qed
qed

section \<open>The handlers\<close>

definition daemon_simulates :: "sodium \<Rightarrow> daemon \<Rightarrow> emission list \<Rightarrow> daemon \<Rightarrow> bool" where
  "daemon_simulates sod d em d' \<longleftrightarrow>
     d_cfg d' = d_cfg d \<and> d_tun d' = d_tun d \<and> d_udp d' = d_udp d \<and>
     simulates sod (rng d) (d_peers d) em (rng d') (d_peers d')"

text \<open>The runtime entries mirror the configured peers.\<close>

definition peers_match :: "daemon \<Rightarrow> bool" where
  "peers_match d \<longleftrightarrow> map ps_config (d_peers d) = peers (d_cfg d)"

lemma daemon_simulates_match: "daemon_simulates sod d em d' \<Longrightarrow> peers_match d \<Longrightarrow> peers_match d'"
  by (simp add: daemon_simulates_def simulates_def peers_match_def)

lemma daemon_simulates_length: "daemon_simulates sod d em d' \<Longrightarrow> length (d_peers d') = length (d_peers d)"
  by (auto simp: daemon_simulates_def dest: simulates_length)

lemma daemon_simulates_refl [simp, intro]: "daemon_simulates sod d [] d"
  by (simp add: daemon_simulates_def)

lemma daemon_simulates_trans:
  "daemon_simulates sod d em d' \<Longrightarrow> daemon_simulates sod d' em' d'' \<Longrightarrow> daemon_simulates sod d (em @ em') d''"
  by (auto simp: daemon_simulates_def intro: simulates_trans)

lemma daemon_simulates_call:
  assumes "i < length (d_peers d)"
    and "session_step sod (rng d, sess (d_peers d ! i)) e = (r', sess (f (d_peers d ! i)))"
    and "call_output sod (rng d, sess (d_peers d ! i)) e = em"
    and "ps_config (f (d_peers d ! i)) = ps_config (d_peers d ! i)"
  shows "daemon_simulates sod d em (upd_peer i f (d\<lparr>rng := r'\<rparr>))"
  using simulates_call [OF assms] by (simp add: daemon_simulates_def upd_peer_def)

lemma daemon_simulates_fields:
  assumes "sess (f (d_peers d ! i)) = sess (d_peers d ! i)" and "ps_config (f (d_peers d ! i)) = ps_config (d_peers d ! i)"
  shows "daemon_simulates sod d [] (upd_peer i f d)"
  using assms
  by (cases "i < length (d_peers d)")
    (auto simp: daemon_simulates_def upd_peer_def map_update list_update_same_conv list_update_beyond intro!: simulates_fields)

lemma route_in_range:
  assumes "peers_match d" and "\<not> route_packet (d_cfg d) p < 0"
  shows "nat (route_packet (d_cfg d) p) < length (d_peers d)"
proof -
  have "length (d_peers d) = length (peers (d_cfg d))" using assms(1) by (metis length_map peers_match_def)
  with assms(2) first_hit [of "peers (d_cfg d)"] show ?thesis
    by (fastforce simp: route_packet_def routing_find_peer_for_dest_def find_from_spec split: option.splits if_splits)
qed

lemma handle_tun_simulates:
  assumes match: "peers_match d" and h: "handle_tun sod d answer sent now = (d', eff)"
  shows "daemon_simulates sod d (emitted eff) d'"
proof -
  have call: "daemon_simulates sod d em (upd_peer i f d)"
    if "\<not> route_packet (d_cfg d) p < 0" "i = nat (route_packet (d_cfg d) p)"
      "session_seal_data sod (sess (d_peers d ! i)) p SEALED_BUF_SIZE = (sess (f (d_peers d ! i)), m)"
      "em = (case m of None \<Rightarrow> [] | Some m \<Rightarrow> [Datagram m])" "ps_config (f (d_peers d ! i)) = ps_config (d_peers d ! i)"
    for i p f m em
    using daemon_simulates_call [of i d sod "SealData p SEALED_BUF_SIZE" "rng d" f em] route_in_range [OF match that(1)] that
    by (auto split: option.splits)
  have unready: "daemon_simulates sod d [] (upd_peer i (\<lambda>p. p\<lparr>stat_drops := stat_drops p + 1\<rparr>) d)" for i
    by (rule daemon_simulates_fields) simp_all
  show ?thesis
    using h
    by (auto simp: handle_tun_def Let_def udp_send_def upd_peer_twice unready intro: call
        split: sysret.splits if_splits prod.splits option.splits)
qed

lemma find_responder_simulates:
  assumes "find_responder_for_init sod r ps inp n = (r', ps', res)"
  shows "simulates sod r ps (case res of None \<Rightarrow> [] | Some (i, m) \<Rightarrow> [Datagram m]) r' ps'"
  using assms
proof (induction ps arbitrary: r r' ps' res)
  case (Cons p ps)
  show ?case
  proof (cases "cfg_role (ps_config p) = CRYPTO_ROLE_RESPONDER")
    case False
    obtain r2 ps2 res2 where rest: "find_responder_for_init sod r ps inp n = (r2, ps2, res2)"
      by (cases "find_responder_for_init sod r ps inp n") auto
    from Cons.prems False rest simulates_Cons [OF Cons.IH [OF rest], of p] show ?thesis by (auto split: option.splits)
  next
    case True
    obtain r1 s1 m where h: "session_handle_init sod r (sess p) inp n = (r1, s1, m)"
      by (cases "session_handle_init sod r (sess p) inp n") auto
    have one: "simulates sod r (p # ps) (case m of None \<Rightarrow> [] | Some m \<Rightarrow> [Datagram m]) r1 (p\<lparr>sess := s1\<rparr> # ps)"
      using simulates_call [of 0 "p # ps" sod r "HandleInit inp n" r1 "p\<lparr>sess := s1\<rparr>"] h by (auto split: option.splits)
    show ?thesis
    proof (cases m)
      case (Some resp)
      with Cons.prems True h one show ?thesis by auto
    next
      case None
      obtain r2 ps2 res2 where rest: "find_responder_for_init sod r1 ps inp n = (r2, ps2, res2)"
        by (cases "find_responder_for_init sod r1 ps inp n") auto
      have "simulates sod r (p # ps) (case res2 of None \<Rightarrow> [] | Some (i, m) \<Rightarrow> [Datagram m]) r2 (p\<lparr>sess := s1\<rparr> # ps2)"
        using simulates_trans [OF one simulates_Cons [OF Cons.IH [OF rest]]] None by simp
      with Cons.prems True h None rest show ?thesis by (auto split: option.splits)
    qed
  qed
qed simp

lemma handle_unknown_init_simulates:
  assumes "handle_unknown_init sod d inp from sent now = (d', eff)"
  shows "daemon_simulates sod d (emitted eff) d'"
proof -
  obtain r ps res where f: "find_responder_for_init sod (rng d) (d_peers d) inp SESSION_HANDSHAKE_MSG_LEN = (r, ps, res)"
    by (cases "find_responder_for_init sod (rng d) (d_peers d) inp SESSION_HANDSHAKE_MSG_LEN") auto
  define d1 where "d1 = d\<lparr>rng := r, d_peers := ps\<rparr>"
  have sim: "daemon_simulates sod d (case res of None \<Rightarrow> [] | Some (i, m) \<Rightarrow> [Datagram m]) d1"
    using find_responder_simulates [OF f] by (simp add: daemon_simulates_def d1_def)
  have learn: "daemon_simulates sod d1 [] (upd_peer i (\<lambda>p. handshake_done True now (p\<lparr>addr := from, addr_resolved := True\<rparr>)) d1)" for i
    by (rule daemon_simulates_fields) simp_all
  show ?thesis
    using assms f sim daemon_simulates_trans [OF sim learn]
    by (auto simp: handle_unknown_init_def Let_def udp_send_def simp flip: d1_def split: option.splits prod.splits sysret.splits)
qed

lemma handle_known_simulates:
  assumes i: "i < length (d_peers d)" and h: "handle_known sod d i inp sent written now = (d', eff)"
  shows "daemon_simulates sod d (emitted eff) d'"
proof -
  have d: "d\<lparr>rng := rng d\<rparr> = d" by simp
  note init = daemon_simulates_call [OF i, where e = "HandleInit inp SESSION_HANDSHAKE_MSG_LEN"]
    and resp = daemon_simulates_call [OF i, where e = "HandleResponse inp" and r' = "rng d", unfolded d]
    and data = daemon_simulates_call [OF i, where e = "OpenData inp MAX_PACKET_SIZE" and r' = "rng d", unfolded d]
  show ?thesis
    using h
  proof (cases rule: handle_known_cases)
    case (init_refused r s)
    show ?thesis unfolding init_refused(4,5) by (rule init) (use init_refused(3) in simp_all)
  next
    case (init_answered r s m f l)
    show ?thesis unfolding init_answered(4,6) by (rule init) (use init_answered(3,5) in \<open>simp_all split: sysret.split\<close>)
  next
    case (response_refused s)
    show ?thesis unfolding response_refused(4,5) by (rule resp) (use response_refused(3) in simp_all)
  next
    case (response_accepted s)
    show ?thesis unfolding response_accepted(4,5) by (rule resp) (use response_accepted(3) in simp_all)
  next
    case (keepalive s)
    show ?thesis unfolding keepalive(2,3) by (rule data) (use keepalive(1) in simp_all)
  next
    case (delivered s payload f l)
    show ?thesis unfolding delivered(3,5) by (rule data) (use delivered(1,2,4) in \<open>simp_all split: sysret.split\<close>)
  next
    case (data_refused s x)
    show ?thesis unfolding data_refused(3,4)
      by (rule data) (use data_refused(1,2) in \<open>simp_all split: open_result.split\<close>)
  next
    case dropped
    show ?thesis unfolding dropped using daemon_simulates_fields [of _ d i sod] by simp
  qed
qed

lemma find_peer_by_addr_Some:
  "find_peer_by_addr ps from = Some i \<Longrightarrow>
     i < length ps \<and> known_as (ps ! i) from \<and> (\<forall>j < i. \<not> known_as (ps ! j) from)"
proof (induction ps arbitrary: i)
  case (Cons p ps)
  then show ?case by (auto simp: less_Suc_eq_0_disj split: if_splits)
qed simp

lemma handle_udp_simulates:
  assumes "handle_udp sod d answer sent written now = (d', eff)"
  shows "daemon_simulates sod d (emitted eff) d'"
  using assms
  by (auto simp: handle_udp_def handle_unknown_init_simulates dest: find_peer_by_addr_Some intro: handle_known_simulates
      split: sysret.splits prod.splits if_splits option.splits)

lemma initiate_handshake_simulates:
  assumes "initiate_handshake sod res sent udp n r p now = (r', p', eff)"
  shows "simulates sod r [p] (emitted eff) r' [p']"
proof -
  have go: "simulates sod r [p] em r' [p'']"
    if "session_start_handshake sod r (sess p) = (r', s1)" "session_build_init sod s1 n = (s2, m)"
      "em = (case m of None \<Rightarrow> [] | Some m \<Rightarrow> [Datagram m])" "ps_config p'' = ps_config p" "sess p'' = s2"
    for s1 s2 m p'' em
  proof -
    have "simulates sod r [p] [] r' [p\<lparr>sess := s1\<rparr>]"
      using simulates_call [of 0 "[p]" sod r StartHandshake r' "p\<lparr>sess := s1\<rparr>"] that(1) by simp
    moreover have "simulates sod r' [p\<lparr>sess := s1\<rparr>] em r' [p'']"
      using simulates_call [of 0 "[p\<lparr>sess := s1\<rparr>]" sod r' "BuildInit n" r' p''] that(2-5) by (simp split: option.split)
    ultimately show ?thesis using simulates_trans by fastforce
  qed
  have idle: "simulates sod r'' [p] [] r'' [p\<lparr>last_rx_activity_ms := now\<rparr>]" for r''
    by (rule simulates_fields) simp_all
  show ?thesis
    using assms
    by (auto simp: initiate_handshake_def Let_def udp_send_def idle intro: go
        split: if_splits option.splits prod.splits sysret.splits)
qed

lemma keepalive_timer_simulates:
  assumes "keepalive_timer sod sent udp now p = (p', eff)"
  shows "simulates sod r [p] (emitted eff) r [p']"
proof -
  have call: "simulates sod r [p] em r [p'']"
    if "session_seal_data sod (sess p) [] SEALED_BUF_SIZE = (sess p'', m)"
      "em = (case m of None \<Rightarrow> [] | Some m \<Rightarrow> [Datagram m])" "ps_config p'' = ps_config p" for p'' m em
    using simulates_call [of 0 "[p]" sod r "SealData [] SEALED_BUF_SIZE" r p''] that by (simp split: option.split)
  show ?thesis
    using assms
    by (auto simp: keepalive_timer_def udp_send_def intro: call split: if_splits option.splits prod.splits sysret.splits)
qed

lemma peer_timers_simulates:
  assumes "peer_timers sod ans udp now r p = (r', p', eff)"
  shows "simulates sod r [p] (emitted eff) r' [p']"
proof -
  obtain p1 eff1 where k: "keepalive_timer sod (ans_keepalive ans) udp now p = (p1, eff1)" by fastforce
  obtain r2 p2 eff2 where h: "handshake_timer sod ans udp now r p1 = (r2, p2, eff2)"
    by (cases "handshake_timer sod ans udp now r p1") auto
  have "simulates sod r [p1] (emitted eff2) r2 [p2]"
    using h by (auto simp: handshake_timer_def dest: initiate_handshake_simulates split: if_splits prod.splits)
  from simulates_trans [OF keepalive_timer_simulates [OF k] this] assms k h show ?thesis
    by (auto simp: peer_timers_def)
qed

lemma all_timers_simulates:
  assumes "all_timers sod ans udp now i r ps = (r', ps', eff)"
  shows "simulates sod r ps (emitted eff) r' ps'"
  using assms
proof (induction ps arbitrary: i r r' ps' eff)
  case (Cons p ps)
  obtain r1 p1 eff1 where one: "peer_timers sod (ans i) udp now r p = (r1, p1, eff1)"
    by (cases "peer_timers sod (ans i) udp now r p") auto
  obtain r2 ps2 eff2 where rest: "all_timers sod ans udp now (Suc i) r1 ps = (r2, ps2, eff2)"
    by (cases "all_timers sod ans udp now (Suc i) r1 ps") auto
  from simulates_trans [OF simulates_head [OF peer_timers_simulates [OF one]] simulates_Cons [OF Cons.IH [OF rest]]]
    Cons.prems one rest show ?case
    by auto
qed simp

lemma handle_timers_simulates:
  assumes "handle_timers sod d ans now = (d', eff)"
  shows "daemon_simulates sod d (emitted eff) d'"
  using assms
  by (auto simp: handle_timers_def daemon_simulates_def Let_def split: if_splits prod.splits dest!: all_timers_simulates)

section \<open>The loop\<close>

lemma loop_body_simulates:
  assumes match: "peers_match d" and body: "loop_body sod d it = (d', eff, go_on)"
  shows "daemon_simulates sod d (emitted eff) d'"
proof (cases "it_poll it")
  case (PollError e)
  with body show ?thesis by (auto simp: loop_body_def split: if_splits)
next
  case (PollReady tun_in udp_in)
  obtain d1 eff1 where h1: "(if tun_in then handle_tun sod d (it_packet it) (it_tun_sent it) (it_tun_now it)
      else (d, [])) = (d1, eff1)" by fastforce
  obtain d2 eff2 where h2: "(if udp_in then handle_udp sod d1 (it_datagram it) (it_udp_sent it) (it_written it) (it_udp_now it)
      else (d1, [])) = (d2, eff2)" by fastforce
  obtain d3 eff3 where h3: "handle_timers sod d2 (it_timers it) (it_now it) = (d3, eff3)" by fastforce
  have "daemon_simulates sod d (emitted eff1) d1" using h1 handle_tun_simulates [OF match] by (auto split: if_splits)
  moreover have "daemon_simulates sod d1 (emitted eff2) d2" using h2 handle_udp_simulates by (auto split: if_splits)
  moreover have "daemon_simulates sod d2 (emitted eff3) d3" by (rule handle_timers_simulates [OF h3])
  ultimately have "daemon_simulates sod d (emitted eff1 @ emitted eff2 @ emitted eff3) d3"
    by (blast intro: daemon_simulates_trans)
  with body PollReady h1 h2 h3 show ?thesis by (auto simp: loop_body_def)
qed

lemma main_loop_simulates:
  assumes "peers_match d" and "main_loop sod d its = (d', eff)"
  shows "daemon_simulates sod d (emitted eff) d'"
  using assms
proof (induction its arbitrary: d eff)
  case (Cons it its)
  obtain d1 eff1 b where body: "loop_body sod d it = (d1, eff1, b)"
    by (cases "loop_body sod d it") auto
  obtain d2 eff2 where rest: "main_loop sod d1 its = (d2, eff2)" by fastforce
  note one = loop_body_simulates [OF Cons.prems(1) body]
  note IH = Cons.IH [OF daemon_simulates_match [OF one Cons.prems(1)]]
  show ?case
    using Cons.prems(2) body rest one IH [of eff2]
    by (auto split: if_splits bool.splits intro: daemon_simulates_trans)
qed simp

end
