(* ===== verification/Daemon_Safety.thy ===== *)
theory Daemon_Safety
  imports Daemon_Refinement Channel
begin

text \<open>
  Safety of the daemon over arbitrary runs of its loop. Whatever the system answers and whatever
  the network delivers, each peer's session only ever moves by calls of the session interface
  (theory Session), so that what is proved of one session holds inside the daemon; on top of it,
  what the daemon sends and writes: packets leave only sealed for the peer their destination
  routes to, enter only when authenticated and fresh, and forged datagrams change nothing.
\<close>

section \<open>Sessions inside the daemon\<close>

text \<open>A session reaches another state by calls of its own interface; the draws of the other
  sessions of the process come in between.\<close>

inductive sess_reach :: "sodium \<Rightarrow> nat \<times> session \<Rightarrow> nat \<times> session \<Rightarrow> bool" for sod st where
  start: "sess_reach sod st st"
| call: "sess_reach sod st st' \<Longrightarrow> sess_reach sod st (session_step sod st' e)"
| others: "sess_reach sod st (r, s) \<Longrightarrow> r \<le> r' \<Longrightarrow> sess_reach sod st (r', s)"

lemma sess_reach_trans:
  assumes "sess_reach sod st st'" and "sess_reach sod st' st''"
  shows "sess_reach sod st st''"
  using assms(2,1) by (induction) (auto intro: sess_reach.intros)

lemma sess_reach_inv:
  assumes "sess_reach sod st st'" and "sodium_ok sod" and "session_inv sod st"
  shows "session_inv sod st' \<and> identity_step (snd st) (snd st')"
  using assms(1)
proof induction
  case (call st' e)
  with session_step_inv [OF assms(2), of st' e] session_step_steps [OF assms(2), of st' e] show ?case
    by (auto intro: identity_step_trans)
next
  case (others r s r')
  then show ?case using session_inv_more_draws [of sod r s r'] by (simp del: session_inv.simps)
qed (use assms(3) in simp)

text \<open>One call, as the interface offers it.\<close>

lemma sess_reach_calls:
  "session_start_handshake sod r s = (r', s') \<Longrightarrow> sess_reach sod (r, s) (r', s')"
  "session_build_init sod s n = (s', m) \<Longrightarrow> sess_reach sod (r, s) (r, s')"
  "session_handle_init sod r s inp n = (r', s', m) \<Longrightarrow> sess_reach sod (r, s) (r', s')"
  "session_handle_response sod s inp = (s', b) \<Longrightarrow> sess_reach sod (r, s) (r, s')"
  "session_seal_data sod s p n = (s', m) \<Longrightarrow> sess_reach sod (r, s) (r, s')"
  "session_open_data sod s inp n = (s', x) \<Longrightarrow> sess_reach sod (r, s) (r, s')"
  using sess_reach.call [OF sess_reach.start, of sod "(r, s)" StartHandshake]
    sess_reach.call [OF sess_reach.start, of sod "(r, s)" "BuildInit n"]
    sess_reach.call [OF sess_reach.start, of sod "(r, s)" "HandleInit inp n"]
    sess_reach.call [OF sess_reach.start, of sod "(r, s)" "HandleResponse inp"]
    sess_reach.call [OF sess_reach.start, of sod "(r, s)" "SealData p n"]
    sess_reach.call [OF sess_reach.start, of sod "(r, s)" "OpenData inp n"]
  by simp_all

lemma session_handle_init_draws:
  "session_handle_init sod r s inp n = (r', s', m) \<Longrightarrow> r \<le> r'"
  by (auto simp: session_handle_init_def session_start_handshake_def crypto_generate_keypair_def Let_def
      split: if_splits option.splits prod.splits)

section \<open>Runs of the daemon\<close>

text \<open>What a handler may do to one peer, with the number of draws before and after.\<close>

definition peer_reach :: "sodium \<Rightarrow> nat \<Rightarrow> nat \<Rightarrow> peer_session \<Rightarrow> peer_session \<Rightarrow> bool" where
  "peer_reach sod r r' p p' \<longleftrightarrow>
     r \<le> r' \<and> ps_config p' = ps_config p \<and> sess_reach sod (r, sess p) (r', sess p')"

definition daemon_reach :: "sodium \<Rightarrow> daemon \<Rightarrow> daemon \<Rightarrow> bool" where
  "daemon_reach sod d d' \<longleftrightarrow>
     d_cfg d' = d_cfg d \<and> d_tun d' = d_tun d \<and> d_udp d' = d_udp d \<and> rng d \<le> rng d' \<and>
     list_all2 (peer_reach sod (rng d) (rng d')) (d_peers d) (d_peers d')"

lemma peer_reach_trans:
  "peer_reach sod r r' p p' \<Longrightarrow> peer_reach sod r' r'' p' p'' \<Longrightarrow> peer_reach sod r r'' p p''"
  by (auto simp: peer_reach_def intro: sess_reach_trans)

lemma peer_reach_idle: "r \<le> r' \<Longrightarrow> peer_reach sod r r' p p"
  by (auto simp: peer_reach_def intro: sess_reach.intros)

lemma peers_idle: "r \<le> r' \<Longrightarrow> list_all2 (peer_reach sod r r') ps ps"
  by (simp add: list_all2_refl peer_reach_idle)

lemma daemon_reach_refl [simp]: "daemon_reach sod d d"
  by (simp add: daemon_reach_def peers_idle)

lemma daemon_reach_trans:
  assumes "daemon_reach sod d d'" and "daemon_reach sod d' d''"
  shows "daemon_reach sod d d''"
proof -
  have "list_all2 (peer_reach sod (rng d) (rng d'')) (d_peers d) (d_peers d'')"
    by (rule list_all2_trans [of "peer_reach sod (rng d) (rng d')" "peer_reach sod (rng d') (rng d'')"])
      (use assms in \<open>auto simp: daemon_reach_def intro: peer_reach_trans\<close>)
  with assms show ?thesis by (auto simp: daemon_reach_def)
qed

text \<open>A simulated run moves each session by its own calls.\<close>

lemma proc_step_draws: "fst st \<le> fst (proc_step sod st x)"
proof -
  have "r \<le> fst (session_step sod (r, s) e)" for r s e
    by (cases e) (auto simp: session_handle_init_draws start_handshake_simps split: prod.split)
  from this [of "fst st" "snd st ! fst x" "snd x"] show ?thesis by (cases st; cases x) (auto split: prod.split)
qed

lemma proc_run_draws: "fst st \<le> fst (proc_run sod st xs)"
proof (induction xs arbitrary: st)
  case (Cons x xs)
  from order_trans [OF proc_step_draws Cons.IH] show ?case by simp
qed simp

lemma proc_step_sess_reach:
  assumes "j < length (snd st)"
  shows "sess_reach sod (fst st, snd st ! j) (fst (proc_step sod st x), snd (proc_step sod st x) ! j)"
proof -
  obtain r ss i e where st: "st = (r, ss)" "x = (i, e)" by (cases st; cases x)
  obtain r' s' where step: "session_step sod (r, ss ! i) e = (r', s')" by fastforce
  have "sess_reach sod (r, ss ! i) (r', s')"
    using sess_reach.call [OF sess_reach.start, of sod "(r, ss ! i)" e] step by simp
  then show ?thesis
    using proc_step_draws [of st sod x] step assms st
    by (cases "i < length ss"; cases "i = j") (auto intro: sess_reach.intros)
qed

lemma proc_run_sess_reach:
  "j < length (snd st) \<Longrightarrow>
     sess_reach sod (fst st, snd st ! j) (fst (proc_run sod st xs), snd (proc_run sod st xs) ! j)"
proof (induction xs arbitrary: st)
  case (Cons x xs)
  from sess_reach_trans [OF proc_step_sess_reach [OF Cons.prems, of sod x] Cons.IH [of "proc_step sod st x"]]
    Cons.prems show ?case
    by (simp add: proc_step_length)
qed (simp add: sess_reach.start)

lemma simulates_reach:
  assumes "simulates sod r ps em r' ps'"
  shows "r \<le> r' \<and> list_all2 (peer_reach sod r r') ps ps'"
proof -
  from assms obtain xs where xs: "map ps_config ps' = map ps_config ps" "proc_run sod (proc_of r ps) xs = proc_of r' ps'"
    by (auto simp: simulates_def)
  have len: "length ps' = length ps" by (rule simulates_length [OF assms])
  have "ps_config (ps' ! j) = ps_config (ps ! j)" if "j < length ps" for j
    using xs(1) that len by (metis nth_map)
  then show ?thesis
    using len proc_run_draws [of "proc_of r ps" sod xs] proc_run_sess_reach [of _ "proc_of r ps" sod xs] xs(2)
    by (auto simp: list_all2_conv_all_nth peer_reach_def proc_of_def)
qed

lemma daemon_simulates_reach: "daemon_simulates sod d em d' \<Longrightarrow> daemon_reach sod d d'"
  using simulates_reach by (auto simp: daemon_simulates_def daemon_reach_def)

lemmas handle_known_reach = handle_known_simulates [THEN daemon_simulates_reach]
lemmas handle_udp_reach = handle_udp_simulates [THEN daemon_simulates_reach]
lemmas handle_timers_reach = handle_timers_simulates [THEN daemon_simulates_reach]
lemmas all_timers_reach = all_timers_simulates [THEN simulates_reach]

lemma initiate_handshake_reach:
  "initiate_handshake sod res sent udp n r p now = (r', p', eff) \<Longrightarrow> peer_reach sod r r' p p'"
  by (drule initiate_handshake_simulates [THEN simulates_reach]) simp

lemma peer_timers_reach: "peer_timers sod ans udp now r p = (r', p', eff) \<Longrightarrow> peer_reach sod r r' p p'"
  by (drule peer_timers_simulates [THEN simulates_reach]) simp

text \<open>The loop is a run of its body over the iterations it makes.\<close>

definition daemon_step :: "sodium \<Rightarrow> daemon \<Rightarrow> iteration \<Rightarrow> daemon" where
  "daemon_step sod d it = fst (loop_body sod d it)"

lemma main_loop_is_run: "\<exists>n. fst (main_loop sod d its) = run (daemon_step sod) d (take n its)"
proof (induction its arbitrary: d)
  case (Cons it its)
  obtain d1 eff1 b where b: "loop_body sod d it = (d1, eff1, b)"
    by (cases "loop_body sod d it") auto
  obtain n where n: "fst (main_loop sod d1 its) = run (daemon_step sod) d1 (take n its)"
    using Cons.IH by blast
  have step: "daemon_step sod d it = d1" using b by (simp add: daemon_step_def)
  show ?case
  proof (cases "it_running it")
    case False
    then show ?thesis by (intro exI [of _ 0]) simp
  next
    case True
    show ?thesis
    proof (cases b)
      case False
      with True b show ?thesis by (intro exI [of _ 1]) (simp add: step)
    next
      case go: True
      with True b n show ?thesis by (intro exI [of _ "Suc n"]) (auto simp: step split: prod.split)
    qed
  qed
qed simp

section \<open>The invariant of the daemon\<close>

text \<open>The session of a configured peer: in its configured role, under the static keys derived
  from the two configured keys, and in a state of the session invariant.\<close>

definition peer_ok :: "sodium \<Rightarrow> config \<Rightarrow> nat \<Rightarrow> config_peer \<Rightarrow> peer_session \<Rightarrow> bool" where
  "peer_ok sod c r cp p \<longleftrightarrow>
     ps_config p = cp \<and> role (sess p) = cfg_role cp \<and> session_inv sod (r, sess p) \<and>
     crypto_derive_session_keys sod (cfg_role cp) (crypto_derive_public_key sod (private_key c)) (private_key c)
       (public_key cp) = Some (static_keys (sess p))"

definition daemon_inv :: "sodium \<Rightarrow> daemon \<Rightarrow> bool" where
  "daemon_inv sod d \<longleftrightarrow>
     config_fits (d_cfg d) \<and> list_all2 (peer_ok sod (d_cfg d) (rng d)) (peers (d_cfg d)) (d_peers d)"

lemma peer_ok_reach:
  assumes "sodium_ok sod" and "peer_ok sod c r cp p" and "peer_reach sod r r' p p'"
  shows "peer_ok sod c r' cp p'"
  using assms sess_reach_inv [of sod "(r, sess p)" "(r', sess p')"]
  by (auto simp: peer_ok_def peer_reach_def identity_step_def simp del: session_inv.simps)

lemma daemon_reach_inv:
  assumes "sodium_ok sod" and "daemon_reach sod d d'" and "daemon_inv sod d"
  shows "daemon_inv sod d'"
proof -
  have "list_all2 (peer_ok sod (d_cfg d) (rng d')) (peers (d_cfg d)) (d_peers d')"
    by (rule list_all2_trans [of "peer_ok sod (d_cfg d) (rng d)" "peer_reach sod (rng d) (rng d')"])
      (use assms in \<open>auto simp: daemon_inv_def daemon_reach_def intro: peer_ok_reach\<close>)
  with assms show ?thesis by (simp add: daemon_inv_def daemon_reach_def)
qed

lemma daemon_inv_match: "daemon_inv sod d \<Longrightarrow> peers_match d"
  by (auto simp: daemon_inv_def peers_match_def peer_ok_def list_all2_conv_all_nth intro: nth_equalityI)

interpretation daemon_sys: invariant_system "daemon_step sod"
  "\<lambda>d'. peers_match d' \<and> daemon_reach sod d d'" for sod d
proof unfold_locales
  fix d' it
  assume inv: "peers_match d' \<and> daemon_reach sod d d'"
  obtain d'' eff b where body: "loop_body sod d' it = (d'', eff, b)"
    by (cases "loop_body sod d' it") auto
  note sim = loop_body_simulates [OF inv [THEN conjunct1] body]
  from daemon_simulates_match [OF sim] daemon_reach_trans [OF _ daemon_simulates_reach [OF sim]] inv body
  show "peers_match (daemon_step sod d' it) \<and> daemon_reach sod d (daemon_step sod d' it)"
    by (auto simp: daemon_step_def)
qed

lemma main_loop_reach: "peers_match d \<Longrightarrow> daemon_reach sod d (fst (main_loop sod d its))"
  using main_loop_is_run [of sod d its] daemon_sys.run_inv [of d sod d] by auto

lemma daemon_inv_nth:
  assumes "daemon_inv sod d" and "i < length (d_peers d)"
  shows "length (d_peers d) = length (peers (d_cfg d))"
    and "ps_config (d_peers d ! i) = peers (d_cfg d) ! i"
    and "role (sess (d_peers d ! i)) = cfg_role (ps_config (d_peers d ! i))"
    and "session_inv sod (rng d, sess (d_peers d ! i))"
  using assms by (auto simp: daemon_inv_def list_all2_conv_all_nth peer_ok_def simp del: session_inv.simps)

text \<open>Startup gives every configured peer its entry, and establishes the invariant.\<close>

lemma initiate_handshake_config: "initiate_handshake sod res sent udp n r p now = (r', p', eff) \<Longrightarrow> ps_config p' = ps_config p"
  using initiate_handshake_reach by (simp add: peer_reach_def)

lemma start_peers_match:
  "start_peers sod ans pk sk udp i r cps = (r', ps, eff, True) \<Longrightarrow> map ps_config ps = cps"
proof (induction cps arbitrary: i r r' ps eff)
  case (Cons cp cps)
  then show ?case
    by (auto simp: Let_def zero_peer_session_def dest: initiate_handshake_config split: option.splits prod.splits if_splits)
qed simp

lemma daemon_start_match: "daemon_start sod ans k = (k', eff, Running d) \<Longrightarrow> peers_match d"
  by (auto simp: daemon_start_def peers_match_def Let_def dest: start_peers_match split: if_splits sum.splits prod.splits)

lemma start_peers_ok:
  assumes "sodium_ok sod"
    and "start_peers sod ans (crypto_derive_public_key sod (private_key c)) (private_key c) udp i r cps = (r', ps, eff, True)"
  shows "r \<le> r' \<and> list_all2 (peer_ok sod c r') cps ps"
  using assms(2)
proof (induction cps arbitrary: i r r' ps eff)
  case (Cons cp cps)
  let ?pk = "crypto_derive_public_key sod (private_key c)"
  obtain st where init: "session_init sod r (st_wall_clock ans i) (cfg_role cp) ?pk (private_key c) (public_key cp) = Some st"
    using Cons.prems by (cases "session_init sod r (st_wall_clock ans i) (cfg_role cp) ?pk (private_key c) (public_key cp)") auto
  obtain r1 s where st: "st = (r1, s)" by fastforce
  let ?p = "(zero_peer_session cp)\<lparr>sess := s, last_rx_activity_ms := st_now ans i\<rparr>"
  obtain r2 p2 eff1 where go: "(if cfg_role cp = CRYPTO_ROLE_INITIATOR
      then initiate_handshake sod (st_resolve ans i) (st_sent ans i) udp SEALED_BUF_SIZE r1 ?p (st_init_now ans i)
      else (r1, ?p, [Logged (AwaitingInit (host cp))])) = (r2, p2, eff1)"
    by (metis prod_cases3)
  obtain r3 ps3 eff2 ok where rest: "start_peers sod ans ?pk (private_key c) udp (Suc i) r2 cps = (r3, ps3, eff2, ok)"
    by (metis prod_cases4)
  have res: "r' = r3" "ps = p2 # ps3" "ok"
    using Cons.prems init st go rest by auto
  have "peer_ok sod c r1 cp ?p"
    using session_init_fields [OF init] session_init_inv [OF init] st
    by (simp add: peer_ok_def zero_peer_session_def del: session_inv.simps)
  moreover have reach: "peer_reach sod r1 r2 ?p p2"
    using go by (auto intro: initiate_handshake_reach peer_reach_idle split: if_splits)
  ultimately have ok2: "peer_ok sod c r2 cp p2" by (rule peer_ok_reach [OF assms(1)])
  have le: "r \<le> r2" using session_init_fields(1) [OF init] st reach by (simp add: peer_reach_def)
  note IH = Cons.IH [OF rest [unfolded \<open>ok\<close> [THEN eqTrueI]]]
  have "peer_ok sod c r3 cp p2"
    by (rule peer_ok_reach [OF assms(1) ok2 peer_reach_idle]) (use IH in simp)
  with IH res le show ?case by auto
qed simp

lemma daemon_start_inv:
  assumes ok: "sodium_ok sod" and start: "daemon_start sod ans k = (k', eff, Running d)"
  shows "daemon_inv sod d \<and> config_load sod (st_files ans (config_path (st_env ans))) = Inr (d_cfg d)"
proof -
  obtain c where c: "config_load sod (st_files ans (config_path (st_env ans))) = Inr c"
    using start by (auto simp: daemon_start_def split: if_splits sum.splits)
  have fits: "config_fits c" using config_load_valid [OF c] by simp
  have cfg: "d_cfg d = c"
    using start c by (auto simp: daemon_start_def Let_def split: if_splits prod.splits)
  have "list_all2 (peer_ok sod c (rng d)) (peers c) (d_peers d)"
    using start c
    by (auto simp: daemon_start_def Let_def split: if_splits prod.splits dest!: start_peers_ok [OF ok])
  with fits cfg c show ?thesis by (simp add: daemon_inv_def)
qed

section \<open>Datagrams that do not authenticate\<close>

text \<open>The datagram opens under a key of the session, for its kind of message.\<close>

definition authenticates :: "sodium \<Rightarrow> session \<Rightarrow> bytes \<Rightarrow> bool" where
  "authenticates sod s inp \<longleftrightarrow>
     (\<exists>body. (inp = SESSION_MSG_HANDSHAKE_INIT # body \<or> inp = SESSION_MSG_HANDSHAKE_RESPONSE # body) \<and>
        open_handshake sod s body \<noteq> None) \<or>
     (\<exists>body. inp = SESSION_MSG_DATA # body \<and> state s = SESSION_STATE_ESTABLISHED \<and>
        crypto_open sod (rx (data_keys s)) body MAX_PACKET_SIZE \<noteq> None)"

text \<open>The same peer up to its two error counters.\<close>

definition same_but_counted :: "peer_session \<Rightarrow> peer_session \<Rightarrow> bool" where
  "same_but_counted p p' \<longleftrightarrow>
     p'\<lparr>stat_auth_failures := stat_auth_failures p, stat_drops := stat_drops p\<rparr> = p"

lemma same_but_counted_refl [simp]: "same_but_counted p p"
  by (simp add: same_but_counted_def)

lemma forged_message:
  assumes "\<not> authenticates sod s inp"
  shows "session_handle_init sod r s inp n = (r, s, None)"
    and "session_handle_response sod s inp = (s, False)"
    and "session_open_data sod s inp MAX_PACKET_SIZE = (s, OpenFailed)"
  using assms
  by (auto simp: authenticates_def session_handle_init_def session_handle_response_def session_open_data_def
      split: option.splits)

lemma find_responder_forged:
  assumes "\<forall>p \<in> set ps. \<not> authenticates sod (sess p) inp"
  shows "find_responder_for_init sod r ps inp n = (r, ps, None)"
  using assms by (induction ps) (simp_all add: forged_message)

lemma upd_peer_counted:
  assumes "\<And>p. p = d_peers d ! i \<Longrightarrow> same_but_counted p (f p)"
  shows "list_all2 same_but_counted (d_peers d) (d_peers (upd_peer i f d)) \<and> rng (upd_peer i f d) = rng d"
  using assms
  by (cases "i < length (d_peers d)")
    (auto simp: upd_peer_def list_all2_conv_all_nth nth_list_update)

lemma handle_known_forged:
  assumes "\<not> authenticates sod (sess (d_peers d ! i)) inp"
    and "handle_known sod d i inp sent written now = (d', eff)"
  shows "list_all2 same_but_counted (d_peers d) (d_peers d') \<and> rng d' = rng d \<and> (\<forall>e. Net e \<notin> set eff)"
proof -
  note forged = forged_message [OF assms(1)]
  have d: "d\<lparr>rng := rng d\<rparr> = d" by simp
  show ?thesis
    using assms(2)
    by (cases rule: handle_known_cases) (auto simp: forged d same_but_counted_def dest!: upd_peer_counted
        intro!: upd_peer_counted [THEN conjunct1] upd_peer_counted [THEN conjunct2])
qed

section \<open>Datagrams from an unknown address\<close>

lemma find_responder_result:
  assumes "find_responder_for_init sod r ps inp n = (r', ps', res)"
  shows "length ps' = length ps \<and> (\<forall>j < length ps. \<exists>s. ps' ! j = (ps ! j)\<lparr>sess := s\<rparr>) \<and>
    (\<forall>i m. res = Some (i, m) \<longrightarrow> i < length ps \<and> cfg_role (ps_config (ps ! i)) = CRYPTO_ROLE_RESPONDER \<and>
       (\<exists>r1 s1. r \<le> r1 \<and> session_handle_init sod r1 (sess (ps ! i)) inp n = (r', s1, Some m) \<and>
          ps' ! i = (ps ! i)\<lparr>sess := s1\<rparr>))"
  using assms
proof (induction ps arbitrary: r r' ps' res)
  case (Cons p ps)
  have same: "\<exists>s. q = q\<lparr>sess := s\<rparr>" for q
    by (rule exI [of _ "sess q"]) simp
  obtain r1 s1 m1 where h: "session_handle_init sod r (sess p) inp n = (r1, s1, m1)"
    by (cases "session_handle_init sod r (sess p) inp n") auto
  consider (found) m where "cfg_role (ps_config p) = CRYPTO_ROLE_RESPONDER" "m1 = Some m"
    | (on) r2 p2 where "r \<le> r2" "p2 = p \<or> p2 = p\<lparr>sess := s1\<rparr>"
        "find_responder_for_init sod r (p # ps) inp n =
          (case find_responder_for_init sod r2 ps inp n of (r', pss', res) \<Rightarrow> (r', p2 # pss', map_option (apfst Suc) res))"
    using h session_handle_init_draws [OF h]
    by (cases "cfg_role (ps_config p) = CRYPTO_ROLE_RESPONDER"; cases m1) auto
  then show ?case
  proof cases
    case found
    with Cons.prems h same show ?thesis by (auto simp: nth_Cons')
  next
    case on
    obtain r3 ps3 res3 where rest: "find_responder_for_init sod r2 ps inp n = (r3, ps3, res3)"
      by (cases "find_responder_for_init sod r2 ps inp n") auto
    note IH = Cons.IH [OF rest]
    have res: "r' = r3" "ps' = p2 # ps3" "res = map_option (apfst Suc) res3"
      using Cons.prems on(3) rest by auto
    have "\<exists>s. p2 = p\<lparr>sess := s\<rparr>" using on(2) same [of p] by auto
    then have "\<forall>j < length (p # ps). \<exists>s. ps' ! j = ((p # ps) ! j)\<lparr>sess := s\<rparr>"
      using IH by (auto simp: res less_Suc_eq_0_disj)
    then show ?thesis
      using IH order_trans [OF on(1)] by (auto simp: res) blast
  qed
qed simp

text \<open>What opens as data, and that it is new.\<close>

lemma opened_is_authentic:
  assumes "session_open_data sod s inp n = (s', Opened q)"
  shows "\<exists>body c. inp = SESSION_MSG_DATA # body \<and> state s = SESSION_STATE_ESTABLISHED \<and>
    crypto_open sod (rx (data_keys s)) body n = Some (q, c) \<and>
    (\<forall>S. replay_inv s S \<longrightarrow> c \<notin> S \<and> replay_inv s' (insert c S))"
  using assms
proof (cases rule: session_open_data_cases)
  case (opened body out counter ok)
  then have "ok" "out = q" by (auto split: if_splits)
  with opened replay.check_accept show ?thesis by fastforce
qed simp

lemma answered_is_authentic:
  assumes "sodium_ok sod" and "session_inv sod (r, s)"
    and "session_handle_init sod r s inp n = (r', s', Some m)"
  shows "\<exists>body pk c. inp = SESSION_MSG_HANDSHAKE_INIT # body \<and> open_handshake sod s body = Some (pk, c) \<and>
    (have_seen_handshake s \<longrightarrow> highest_handshake_counter_seen s < c) \<and> state s' = SESSION_STATE_ESTABLISHED \<and>
    have_seen_handshake s' \<and> highest_handshake_counter_seen s' = c"
  using assms(1) session_invD(1) [OF assms(1,2)] assms(3)
  by (cases rule: session_handle_init_cases) auto

lemma handle_unknown_init_effects:
  assumes "handle_unknown_init sod d inp from sent now = (d', eff)"
  shows "Net (TunWrite fd q) \<notin> set eff"
  using assms by (auto simp: handle_unknown_init_def Let_def udp_send_def split: option.splits prod.splits sysret.splits)

lemma handle_udp_write:
  assumes "handle_udp sod d answer sent written now = (d', eff)" and "Net (TunWrite fd q) \<in> set eff"
  obtains datagram src i l where "answer = Ret (datagram, src)" "find_peer_by_addr (d_peers d) src = Some i"
    "fd = tun_fd (d_tun d)" "q \<noteq> []" "eff = [Net (TunWrite fd q), Logged l]"
    "session_open_data sod (sess (d_peers d ! i)) (take SEALED_BUF_SIZE datagram) MAX_PACKET_SIZE =
       (sess (d_peers d' ! i), Opened q)"
    "\<And>j. j \<noteq> i \<Longrightarrow> d_peers d' ! j = d_peers d ! j"
proof -
  obtain datagram src i where a: "answer = Ret (datagram, src)" "find_peer_by_addr (d_peers d) src = Some i"
    and k: "handle_known sod d i (take SEALED_BUF_SIZE datagram) sent written now = (d', eff)"
    using assms handle_unknown_init_effects
    by (auto simp: handle_udp_def udp_recv_def split: sysret.splits prod.splits if_splits option.splits)
  have i: "i < length (d_peers d)" using find_peer_by_addr_Some [OF a(2)] by simp
  from k show thesis
  proof (cases rule: handle_known_cases)
    case (delivered s payload f l)
    have "sess (f (p\<lparr>sess := s\<rparr>)) = s" for p by (simp add: delivered(4) split: sysret.split)
    with delivered a i assms(2) show thesis
      by (intro that [of datagram src i l]) (auto simp: tun_write_def upd_peer_def)
  qed (use assms(2) in \<open>auto simp: udp_send_def\<close>)
qed

section \<open>Packets to the network\<close>

lemma seal_packet:
  assumes "sodium_ok sod" and "state s = SESSION_STATE_ESTABLISHED"
  obtains m where "session_seal_data sod s (take MAX_PACKET_SIZE p) SEALED_BUF_SIZE =
      (s\<lparr>tx_counter := tx_counter s + 1\<rparr>, Some m)"
    "sealed_as sod (tx (data_keys s)) (tx_counter s) (take MAX_PACKET_SIZE p) m"
  by (rule seal_one [OF sodium_okD(1) [OF assms(1)] assms(2), of "take MAX_PACKET_SIZE p" SEALED_BUF_SIZE])
    (auto simp: const_defs)

lemma route_packet_first:
  assumes "config_fits c"
  shows "(route_packet c p < 0 \<and>
      (\<forall>dest. routing_parse_ipv4_dest p = Some dest \<longrightarrow> (\<forall>cp \<in> set (peers c). \<not> covers cp dest))) \<or>
    (\<exists>dest. routing_parse_ipv4_dest p = Some dest \<and> 0 \<le> route_packet c p \<and>
      nat (route_packet c p) < length (peers c) \<and> covers (peers c ! nat (route_packet c p)) dest \<and>
      (\<forall>j < nat (route_packet c p). \<not> covers (peers c ! j) dest))"
proof (cases "routing_parse_ipv4_dest p")
  case (Some dest)
  with find_peer_first [OF assms, of dest] show ?thesis by (auto simp: route_packet_def)
qed (simp add: route_packet_def)

text \<open>A packet with a route to an established peer: one sealed datagram.\<close>

lemma handle_tun_sends:
  assumes ok: "sodium_ok sod" and inv: "daemon_inv sod d"
    and i: "route_packet (d_cfg d) (take MAX_PACKET_SIZE packet) = int i" "i < length (d_peers d)"
    and est: "state (sess (d_peers d ! i)) = SESSION_STATE_ESTABLISHED"
    and h: "handle_tun sod d (Ret packet) sent now = (d', eff)"
  obtains m l where
    "sealed_as sod (tx (data_keys (sess (d_peers d ! i)))) (tx_counter (sess (d_peers d ! i))) (take MAX_PACKET_SIZE packet) m"
    "eff = [Net (fst (udp_send sent (d_udp d) m (addr (d_peers d ! i)))), Logged l]"
    "sess (d_peers d' ! i) = (sess (d_peers d ! i))\<lparr>tx_counter := tx_counter (sess (d_peers d ! i)) + 1\<rparr>"
    "\<And>j. j \<noteq> i \<Longrightarrow> d_peers d' ! j = d_peers d ! j"
proof -
  obtain m where m: "session_seal_data sod (sess (d_peers d ! i)) (take MAX_PACKET_SIZE packet) SEALED_BUF_SIZE =
      ((sess (d_peers d ! i))\<lparr>tx_counter := tx_counter (sess (d_peers d ! i)) + 1\<rparr>, Some m)"
    "sealed_as sod (tx (data_keys (sess (d_peers d ! i)))) (tx_counter (sess (d_peers d ! i))) (take MAX_PACKET_SIZE packet) m"
    by (rule seal_packet [OF ok est])
  have "peers (d_cfg d) \<noteq> []" using daemon_inv_nth(1) [OF inv i(2)] i(2) by auto
  with h i est m(1) show thesis
    by (intro that [OF m(2), of "case sent of Fail e \<Rightarrow> DataNotSent (host (ps_config (d_peers d ! i))) e
        | Ret _ \<Rightarrow> TunToUdp (host (ps_config (d_peers d ! i))) (length (take MAX_PACKET_SIZE packet)) (length m)"])
      (auto simp: handle_tun_def tun_read_def Let_def upd_peer_twice upd_peer_def udp_send_def split: sysret.splits)
qed

lemma handle_tun_silent:
  assumes "handle_tun sod d (Ret packet) sent now = (d', eff)"
    and "route_packet (d_cfg d) (take MAX_PACKET_SIZE packet) < 0 \<or>
      state (sess (d_peers d ! nat (route_packet (d_cfg d) (take MAX_PACKET_SIZE packet)))) \<noteq> SESSION_STATE_ESTABLISHED"
  shows "Net e \<notin> set eff"
  using assms by (auto simp: handle_tun_def tun_read_def Let_def split: if_splits)

section \<open>Two daemons for the witnesses\<close>

definition demo_peer_config :: "crypto_role \<Rightarrow> nat \<Rightarrow> config_peer" where
  "demo_peer_config r theirs =
     \<lparr>host = ''peer'', port = 51820, public_key = crypto_derive_public_key demo_sodium (demo_sk theirs),
      cfg_role = r, allowed_address = load32 [10, 0, 0, of_nat theirs], allowed_prefix = 32\<rparr>"

definition demo_addr :: "nat \<Rightarrow> sockaddr_in" where
  "demo_addr i = \<lparr>sin_addr = load32 [192, 168, 0, of_nat i], sin_port = 51820\<rparr>"

definition demo_daemon :: "crypto_role \<Rightarrow> nat \<Rightarrow> nat \<Rightarrow> bool \<Rightarrow> nat \<times> session \<Rightarrow> daemon" where
  "demo_daemon r mine theirs known st =
     \<lparr>d_cfg = demo_config\<lparr>private_key := demo_sk mine, peers := [demo_peer_config r theirs]\<rparr>,
      d_tun = \<lparr>tun_fd = 3, dev_name = ''edgar0''\<rparr>, d_udp = \<lparr>udp_fd = 4\<rparr>, rng = fst st,
      d_peers = [(zero_peer_session (demo_peer_config r theirs))\<lparr>sess := snd st, addr_resolved := known,
        addr := demo_addr theirs\<rparr>],
      last_stats_ms = 0\<rparr>"

lemmas demo_daemon_defs = demo_daemon_def zero_peer_session_def demo_peer_config_def demo_addr_def demo_config_def

lemma demo_daemon_inv:
  assumes "(r, i, j) \<in> {(CRYPTO_ROLE_INITIATOR, 1, 2), (CRYPTO_ROLE_RESPONDER, 2, 1)}"
    and "sess_reach demo_sodium (demo_session r i j n) st"
  shows "daemon_inv demo_sodium (demo_daemon r i j known st)"
proof -
  note init = demo_session_init [OF assms(1), of n]
  have "session_inv demo_sodium st" "identity_step (snd (demo_session r i j n)) (snd st)"
    using sess_reach_inv [OF assms(2) demo_sodium_ok session_init_inv [OF init]] by simp_all
  moreover have "length (demo_sk i) = 32" "length (crypto_derive_public_key demo_sodium (demo_sk j)) = 32"
    by (simp_all add: demo_sk_def crypto_derive_public_key_def demo_sodium_simps const_defs)
  ultimately show ?thesis
    using session_init_fields(2,9) [OF init]
    by (cases st) (auto simp: daemon_inv_def peer_ok_def demo_daemon_defs identity_step_def config_fits_def
        peer_fits_def inet_ntop_length const_defs simp del: session_inv.simps)
qed

text \<open>Both ends of a tunnel after a completed handshake.\<close>

lemma demo_tunnel_counters:
  obtains a b where
    "daemon_inv demo_sodium (demo_daemon CRYPTO_ROLE_INITIATOR 1 2 True a)"
    "daemon_inv demo_sodium (demo_daemon CRYPTO_ROLE_RESPONDER 2 1 True b)"
    "linked (snd a) (snd b)" "replay_inv (snd b) {}" "tx_counter (snd a) = 0" "handshake_counter (snd a) = 1001"
proof -
  obtain ra sa where a: "demo_session CRYPTO_ROLE_INITIATOR 1 2 3 = (ra, sa)" by fastforce
  obtain rb sb where b: "demo_session CRYPTO_ROLE_RESPONDER 2 1 7 = (rb, sb)" by fastforce
  obtain a1 m1 rb' b' m2 a2 where h:
    "session_build_init demo_sodium sa 57 = (a1, Some m1)"
    "session_handle_init demo_sodium rb sb m1 57 = (rb', b', Some m2)"
    "session_handle_response demo_sodium a1 m2 = (a2, True)"
    "linked a2 b'" "replay_inv b' {}" "tx_counter a2 = 0"
    using demo_handshake [of 3 7, unfolded a b fst_conv snd_conv] by metis
  have hc: "handshake_counter sa = 1000"
    using session_init_fields(4) [OF demo_session_init [of CRYPTO_ROLE_INITIATOR 1 2 3]] a by simp
  from h(1) hc have hc: "handshake_counter a1 = 1001" by (cases rule: session_build_init_cases) simp_all
  from h(3) hc have hc: "handshake_counter a2 = 1001" by (cases rule: session_handle_response_cases) simp_all
  have "sess_reach demo_sodium (ra, sa) (ra, a2)"
    by (rule sess_reach_trans [OF sess_reach_calls(2) [OF h(1)] sess_reach_calls(4) [OF h(3)]])
  moreover have "sess_reach demo_sodium (rb, sb) (rb', b')" by (rule sess_reach_calls(3) [OF h(2)])
  ultimately show thesis
    using demo_daemon_inv [of CRYPTO_ROLE_INITIATOR 1 2 3 "(ra, a2)" True]
      demo_daemon_inv [of CRYPTO_ROLE_RESPONDER 2 1 7 "(rb', b')" True] a b h(4-6) hc
    by (intro that [of "(ra, a2)" "(rb', b')"]) simp_all
qed

lemma demo_tunnel:
  obtains a b where
    "daemon_inv demo_sodium (demo_daemon CRYPTO_ROLE_INITIATOR 1 2 True a)"
    "daemon_inv demo_sodium (demo_daemon CRYPTO_ROLE_RESPONDER 2 1 True b)"
    "linked (snd a) (snd b)" "replay_inv (snd b) {}" "tx_counter (snd a) = 0"
  by (rule demo_tunnel_counters) (rule that)

text \<open>A packet to the other end, and its route.\<close>

definition demo_packet :: bytes where
  "demo_packet = 0x45 # replicate 15 0 @ [10, 0, 0, 2, 1, 2, 3]"

lemma demo_route:
  "routing_parse_ipv4_dest (take MAX_PACKET_SIZE demo_packet) = Some (load32 [10, 0, 0, 2])"
  "route_packet (d_cfg (demo_daemon CRYPTO_ROLE_INITIATOR 1 2 True a)) (take MAX_PACKET_SIZE demo_packet) = 0"
proof -
  show p: "routing_parse_ipv4_dest (take MAX_PACKET_SIZE demo_packet) = Some (load32 [10, 0, 0, 2])"
    by (simp add: demo_packet_def const_defs routing_parse_ipv4_dest_def)
  show "route_packet (d_cfg (demo_daemon CRYPTO_ROLE_INITIATOR 1 2 True a)) (take MAX_PACKET_SIZE demo_packet) = 0"
    by (simp add: route_packet_def p routing_find_peer_for_dest_def routing_matches_def demo_daemon_defs)
qed

section \<open>Properties\<close>

text \<open>C9. Outbound packets leave the machine only sealed and only to the right peer: when a packet is
  read from the interface, the daemon sends a datagram exactly when the packet is IPv4, some peer's
  \<open>AllowedIPs\<close> range covers its destination, and the first such peer has an established session;
  the datagram is then the packet sealed under that peer's current data key with its transmit counter,
  sent to that peer's address from the daemon's socket; the counter advances and no other peer changes.\<close>

theorem outbound_packets_sealed:
  assumes "sodium_ok sod" and "daemon_inv sod d" and "handle_tun sod d (Ret packet) sent now = (d', eff)"
  shows "case routing_parse_ipv4_dest (take MAX_PACKET_SIZE packet) of
    None \<Rightarrow> \<forall>e. Net e \<notin> set eff
  | Some dest \<Rightarrow>
      ((\<forall>p \<in> set (d_peers d). \<not> covers (ps_config p) dest) \<and> (\<forall>e. Net e \<notin> set eff)) \<or>
      (\<exists>i < length (d_peers d). let p = d_peers d ! i; s = sess p in
         covers (ps_config p) dest \<and> (\<forall>j < i. \<not> covers (ps_config (d_peers d ! j)) dest) \<and>
         (if state s = SESSION_STATE_ESTABLISHED
          then \<exists>m l. sealed_as sod (tx (data_keys s)) (tx_counter s) (take MAX_PACKET_SIZE packet) m \<and>
             eff = [Net (UdpSend (udp_fd (d_udp d)) (sin_addr (addr p), sin_port (addr p)) m), Logged l] \<and>
             sess (d_peers d' ! i) = s\<lparr>tx_counter := tx_counter s + 1\<rparr> \<and>
             (\<forall>j. j \<noteq> i \<longrightarrow> d_peers d' ! j = d_peers d ! j)
          else \<forall>e. Net e \<notin> set eff))"
proof -
  let ?p = "take MAX_PACKET_SIZE packet" and ?c = "d_cfg d"
  have fits: "config_fits ?c" and cfgs: "map ps_config (d_peers d) = peers ?c"
    using assms(2) by (auto simp: daemon_inv_def list_all2_conv_all_nth peer_ok_def intro: nth_equalityI)
  then have len: "length (peers ?c) = length (d_peers d)" by (metis length_map)
  show ?thesis
  proof (cases "routing_parse_ipv4_dest ?p")
    case None
    with route_packet_first [OF fits, of ?p] handle_tun_silent [OF assms(3)] show ?thesis by auto
  next
    case (Some dest)
    show ?thesis
    proof (cases "route_packet ?c ?p < 0")
      case True
      with Some route_packet_first [OF fits, of ?p] handle_tun_silent [OF assms(3)] cfgs [symmetric] show ?thesis
        by auto
    next
      case False
      then obtain i where i: "route_packet ?c ?p = int i" by (metis not_less zero_le_imp_eq_int)
      with False Some route_packet_first [OF fits, of ?p] have "i < length (peers ?c)"
        "covers (peers ?c ! i) dest" "\<forall>j < i. \<not> covers (peers ?c ! j) dest" by auto
      then have r: "i < length (d_peers d)" "covers (ps_config (d_peers d ! i)) dest"
        "\<forall>j < i. \<not> covers (ps_config (d_peers d ! j)) dest"
        using len by (simp_all flip: cfgs)
      show ?thesis
      proof (cases "state (sess (d_peers d ! i)) = SESSION_STATE_ESTABLISHED")
        case True
        obtain m l where "sealed_as sod (tx (data_keys (sess (d_peers d ! i)))) (tx_counter (sess (d_peers d ! i))) ?p m"
          "eff = [Net (fst (udp_send sent (d_udp d) m (addr (d_peers d ! i)))), Logged l]"
          "sess (d_peers d' ! i) = (sess (d_peers d ! i))\<lparr>tx_counter := tx_counter (sess (d_peers d ! i)) + 1\<rparr>"
          "\<forall>j. j \<noteq> i \<longrightarrow> d_peers d' ! j = d_peers d ! j"
          using handle_tun_sends [OF assms(1,2) i r(1) True assms(3)] by metis
        with r True Some show ?thesis by (auto simp: Let_def udp_send_def)
      next
        case False
        with handle_tun_silent [OF assms(3)] i r Some show ?thesis by (auto simp: Let_def)
      qed
    qed
  qed
qed

theorem outbound_packets_sealed_witness:
  "\<exists>d d' eff m l. handle_tun demo_sodium d (Ret demo_packet) (Ret 60) 5 = (d', eff) \<and>
     sealed_as demo_sodium (tx (data_keys (sess (d_peers d ! 0)))) 0 demo_packet m \<and>
     eff = [Net (UdpSend 4 (load32 [192, 168, 0, 2], 51820) m), Logged l]"
proof -
  obtain a b where t: "daemon_inv demo_sodium (demo_daemon CRYPTO_ROLE_INITIATOR 1 2 True a)"
    "daemon_inv demo_sodium (demo_daemon CRYPTO_ROLE_RESPONDER 2 1 True b)"
    "linked (snd a) (snd b)" "replay_inv (snd b) {}" "tx_counter (snd a) = 0"
    by (rule demo_tunnel)
  define d where "d = demo_daemon CRYPTO_ROLE_INITIATOR 1 2 True a"
  define dest where "dest = load32 [10, 0, 0, 2]"
  obtain d' eff where h: "handle_tun demo_sodium d (Ret demo_packet) (Ret 60) 5 = (d', eff)" by fastforce
  have p: "take MAX_PACKET_SIZE demo_packet = demo_packet" by (simp add: demo_packet_def const_defs)
  have s: "sess (d_peers d ! 0) = snd a" "length (d_peers d) = 1" "state (snd a) = SESSION_STATE_ESTABLISHED"
    "addr (d_peers d ! 0) = demo_addr 2" "udp_fd (d_udp d) = 4"
    using t(3) by (simp_all add: d_def demo_daemon_def zero_peer_session_def linked_def)
  have c: "covers (ps_config (d_peers d ! 0)) dest"
    by (simp add: d_def dest_def demo_daemon_def zero_peer_session_def demo_peer_config_def covers_def)
  have some: "\<exists>p \<in> set (d_peers d). covers (ps_config p) dest"
    using c s(2) by (intro bexI [of _ "d_peers d ! 0"]) simp_all
  note out = outbound_packets_sealed [OF demo_sodium_ok t(1) [folded d_def] h,
    unfolded demo_route(1) [folded dest_def, unfolded p] p option.case s(2) Let_def]
  from out some obtain i where i: "i < 1" "if state (sess (d_peers d ! i)) = SESSION_STATE_ESTABLISHED
      then \<exists>m l. sealed_as demo_sodium (tx (data_keys (sess (d_peers d ! i)))) (tx_counter (sess (d_peers d ! i))) demo_packet m \<and>
         eff = [Net (UdpSend (udp_fd (d_udp d)) (sin_addr (addr (d_peers d ! i)), sin_port (addr (d_peers d ! i))) m), Logged l] \<and>
         sess (d_peers d' ! i) = (sess (d_peers d ! i))\<lparr>tx_counter := tx_counter (sess (d_peers d ! i)) + 1\<rparr> \<and>
         (\<forall>j. j \<noteq> i \<longrightarrow> d_peers d' ! j = d_peers d ! j)
      else \<forall>e. Net e \<notin> set eff"
    by blast
  have "i = 0" using i(1) by simp
  from i(2) [unfolded this s t(5), simplified] obtain m l where
    "sealed_as demo_sodium (tx (data_keys (snd a))) 0 demo_packet m"
    "eff = [Net (UdpSend 4 (sin_addr (demo_addr 2), sin_port (demo_addr 2)) m), Logged l]"
    by blast
  with h s(1) show ?thesis
    by (intro exI [of _ d] exI [of _ d'] exI [of _ eff] exI [of _ m] exI [of _ l]) (simp add: demo_addr_def)
qed

end
