(* ===== verification/Daemon_Inbound.thy ===== *)
theory Daemon_Inbound
  imports Daemon_Safety
begin

text \<open>
  What the daemon does with datagrams (the UDP part of the loop of \<open>src/src/main.c\<close>): packets
  reach the interface only when authenticated, fresh and from the peer's address; an endpoint is
  learned only from an authenticated handshake init; datagrams that authenticate under no session
  change nothing but two counters.
\<close>

section \<open>Endpoints\<close>

lemma handle_udp_cases:
  assumes "handle_udp sod d (Ret (datagram, src)) sent written now = (d', eff)"
  obtains (ignored) "d' = d" "\<forall>e. Net e \<notin> set eff"
  | (unknown) "find_peer_by_addr (d_peers d) src = None"
      "handle_unknown_init sod d (take SEALED_BUF_SIZE datagram) src sent now = (d', eff)"
  | (known) i where "find_peer_by_addr (d_peers d) src = Some i"
      "handle_known sod d i (take SEALED_BUF_SIZE datagram) sent written now = (d', eff)"
proof (cases "peers (d_cfg d) = [] \<or> length (take SEALED_BUF_SIZE datagram) < 1")
  case True
  with assms show thesis by (intro ignored) (auto simp: handle_udp_def udp_recv_def simp del: length_take)
next
  case False
  with assms show thesis
    by (cases "find_peer_by_addr (d_peers d) src")
      (auto simp: handle_udp_def udp_recv_def simp del: length_take intro: ignored unknown known split: if_splits)
qed

text \<open>A datagram from a known address leaves every address alone.\<close>

lemma handle_known_addr:
  assumes "handle_known sod d i inp sent written now = (d', eff)"
  shows "map addr_resolved (d_peers d') = map addr_resolved (d_peers d) \<and> map addr (d_peers d') = map addr (d_peers d)"
proof -
  have keep: "map g ((d_peers e)[i := f (d_peers e ! i)]) = map g (d_peers e)"
    if "\<And>p. g (f p) = g p" for g :: "peer_session \<Rightarrow> 'b" and f e
    using that by (cases "i < length (d_peers e)") (simp_all add: map_update list_update_beyond list_update_same_conv)
  show ?thesis
    using assms
    by (cases rule: handle_known_cases) (auto simp: upd_peer_def intro!: keep split: sysret.split)
qed

lemma find_peer_by_addr_cong:
  "map addr_resolved ps' = map addr_resolved ps \<Longrightarrow> map addr ps' = map addr ps \<Longrightarrow>
     find_peer_by_addr ps' src = find_peer_by_addr ps src"
proof (induction ps arbitrary: ps')
  case (Cons p ps)
  then obtain p' ps'' where "ps' = p' # ps''" by (cases ps') auto
  with Cons.prems Cons.IH [of ps''] show ?case by (auto simp: known_as_def)
qed simp

section \<open>Delivery\<close>

text \<open>A data message of the peer, the first time and again.\<close>

lemma sealed_as_length:
  assumes "sodium_ok sod" and "sealed_as sod key c p m" and "length p \<le> MAX_PACKET_SIZE"
  shows "take SEALED_BUF_SIZE m = m" and "m ! 0 = SESSION_MSG_DATA" and "m \<noteq> []"
  using assms crypto_seal_length [OF sodium_okD(1) [OF assms(1)]]
  by (auto simp: sealed_as_def const_defs)

lemma handle_udp_known:
  assumes "daemon_inv sod d" and "find_peer_by_addr (d_peers d) src = Some j"
    and "take SEALED_BUF_SIZE m = m" and "m \<noteq> []"
  shows "handle_udp sod d (Ret (m, src)) sent written now = handle_known sod d j m sent written now"
proof -
  have "peers (d_cfg d) \<noteq> []"
    using find_peer_by_addr_Some [OF assms(2)] daemon_inv_nth(1) [OF assms(1), of j] by auto
  with assms show ?thesis by (simp add: handle_udp_def udp_recv_def Suc_le_eq)
qed

lemma handle_udp_delivers:
  assumes ok: "sodium_ok sod" and inv: "daemon_inv sod d" and j: "find_peer_by_addr (d_peers d) src = Some j"
    and est: "state (sess (d_peers d ! j)) = SESSION_STATE_ESTABLISHED"
    and m: "sealed_as sod (rx (data_keys (sess (d_peers d ! j)))) c p m" "p \<noteq> []" "length p \<le> MAX_PACKET_SIZE"
    and S: "replay_inv (sess (d_peers d ! j)) S" "replay_admissible S c"
  obtains d' l where
    "handle_udp sod d (Ret (m, src)) sent written now = (d', [Net (TunWrite (tun_fd (d_tun d)) p), Logged l])"
    "daemon_inv sod d'" "find_peer_by_addr (d_peers d') src = Some j"
    "state (sess (d_peers d' ! j)) = SESSION_STATE_ESTABLISHED"
    "data_keys (sess (d_peers d' ! j)) = data_keys (sess (d_peers d ! j))"
    "replay_inv (sess (d_peers d' ! j)) (insert c S)"
proof -
  note size = sealed_as_length [OF ok m(1,3)]
  obtain s where s: "session_open_data sod (sess (d_peers d ! j)) m MAX_PACKET_SIZE = (s, Opened p)"
    "replay_inv s (insert c S)" "state s = SESSION_STATE_ESTABLISHED" "data_keys s = data_keys (sess (d_peers d ! j))"
    by (rule open_one [OF sodium_okD(1) [OF ok] est m(1) S m(3)])
  obtain d' eff where h: "handle_known sod d j m sent written now = (d', eff)" by fastforce
  have jl: "j < length (d_peers d)" using find_peer_by_addr_Some [OF j] by simp
  have u: "handle_udp sod d (Ret (m, src)) sent written now = (d', eff)"
    using handle_udp_known [OF inv j size(1,3)] h by simp
  have "\<exists>l. eff = [Net (TunWrite (tun_fd (d_tun d)) p), Logged l] \<and> sess (d_peers d' ! j) = s"
    using h s(1) m(2) size(2) jl
    by (auto simp: handle_known_def Let_def tun_write_def upd_peer_def const_defs split: sysret.splits)
  moreover have "daemon_inv sod d'" by (rule daemon_reach_inv [OF ok handle_known_reach [OF jl h] inv])
  moreover have "find_peer_by_addr (d_peers d') src = Some j"
    using find_peer_by_addr_cong handle_known_addr [OF h] j by metis
  ultimately show thesis using that u s by auto
qed

lemma handle_udp_refuses_again:
  assumes ok: "sodium_ok sod" and inv: "daemon_inv sod d" and j: "find_peer_by_addr (d_peers d) src = Some j"
    and est: "state (sess (d_peers d ! j)) = SESSION_STATE_ESTABLISHED"
    and m: "sealed_as sod (rx (data_keys (sess (d_peers d ! j)))) c p m" "length p \<le> MAX_PACKET_SIZE"
    and S: "replay_inv (sess (d_peers d ! j)) S" "c \<in> S"
  shows "\<exists>d'. handle_udp sod d (Ret (m, src)) sent written now =
      (d', [Logged (DataDropped (host (ps_config (d_peers d ! j))))]) \<and>
    list_all2 same_but_counted (d_peers d) (d_peers d')"
proof -
  note size = sealed_as_length [OF ok m]
  obtain k sealed where k: "m = SESSION_MSG_DATA # sealed"
    "crypto_seal sod (rx (data_keys (sess (d_peers d ! j)))) c p k = Some sealed"
    using m(1) by (auto simp: sealed_as_def)
  have "crypto_open sod (rx (data_keys (sess (d_peers d ! j)))) sealed MAX_PACKET_SIZE = Some (p, c)"
    using crypto_open_seal [OF sodium_okD(1) [OF ok] k(2), of MAX_PACKET_SIZE] m(2) by simp
  then have o: "session_open_data sod (sess (d_peers d ! j)) m MAX_PACKET_SIZE = (sess (d_peers d ! j), OpenReplayed p)"
    using est k(1) replay.replay_rejected [OF S] by (simp add: session_open_data_def)
  have "handle_known sod d j m sent written now =
      (upd_peer j (\<lambda>q. q\<lparr>sess := sess (d_peers d ! j), stat_auth_failures := stat_auth_failures q + 1,
         stat_drops := stat_drops q + 1\<rparr>) d, [Logged (DataDropped (host (ps_config (d_peers d ! j))))])"
    using o size(2) by (simp add: handle_known_def Let_def const_defs)
  moreover have "list_all2 same_but_counted (d_peers d) (d_peers (upd_peer j
      (\<lambda>q. q\<lparr>sess := sess (d_peers d ! j), stat_auth_failures := stat_auth_failures q + 1,
         stat_drops := stat_drops q + 1\<rparr>) d))"
    using upd_peer_counted [of d j "\<lambda>q. q\<lparr>sess := sess (d_peers d ! j), stat_auth_failures := stat_auth_failures q + 1,
         stat_drops := stat_drops q + 1\<rparr>"] by (simp add: same_but_counted_def)
  ultimately show ?thesis using handle_udp_known [OF inv j size(1,3)] by simp
qed

section \<open>Handshakes from an unknown address\<close>

lemma find_responder_hits:
  assumes "i < length ps" and "cfg_role (ps_config (ps ! i)) = CRYPTO_ROLE_RESPONDER"
    and "session_handle_init sod r (sess (ps ! i)) m n = (r', s, Some response)"
    and "\<forall>j < i. \<not> authenticates sod (sess (ps ! j)) m"
  shows "find_responder_for_init sod r ps m n = (r', ps[i := (ps ! i)\<lparr>sess := s\<rparr>], Some (i, response))"
  using assms
proof (induction ps arbitrary: i)
  case (Cons p ps)
  show ?case
  proof (cases i)
    case 0
    with Cons.prems show ?thesis by simp
  next
    case (Suc k)
    with Cons.prems have "\<not> authenticates sod (sess p) m" "\<forall>j < k. \<not> authenticates sod (sess (ps ! j)) m" by auto
    with Suc Cons.prems Cons.IH [of k] forged_message(1) [of sod "sess p" m r n] show ?thesis by simp
  qed
qed simp

lemma handle_udp_answers:
  assumes inv: "daemon_inv sod d" and i: "i < length (d_peers d)" "find_peer_by_addr (d_peers d) src = None"
    and role: "cfg_role (ps_config (d_peers d ! i)) = CRYPTO_ROLE_RESPONDER"
    and h: "session_handle_init sod (rng d) (sess (d_peers d ! i)) m SESSION_HANDSHAKE_MSG_LEN = (r', s, Some response)"
    and first: "\<forall>j < i. \<not> authenticates sod (sess (d_peers d ! j)) m"
    and m: "m ! 0 = SESSION_MSG_HANDSHAKE_INIT" "length m = SESSION_HANDSHAKE_MSG_LEN"
  obtains d' where
    "handle_udp sod d (Ret (m, src)) (Ret n) written now =
       (d', [Net (UdpSend (udp_fd (d_udp d)) (sin_addr src, sin_port src) response),
             Logged (HandshakeLearned (host (ps_config (d_peers d ! i))) (sin_addr src) (sin_port src))])"
    "sess (d_peers d' ! i) = s" "addr_resolved (d_peers d' ! i)" "addr (d_peers d' ! i) = src"
    "last_rx_activity_ms (d_peers d' ! i) = now" "length (d_peers d') = length (d_peers d)"
    "\<And>j. j \<noteq> i \<Longrightarrow> d_peers d' ! j = d_peers d ! j"
proof -
  have ne: "peers (d_cfg d) \<noteq> []" using daemon_inv_nth(1) [OF inv i(1)] i(1) by auto
  have size: "take SEALED_BUF_SIZE m = m" "\<not> length m < 1" using m(2) by (simp_all add: const_defs)
  note hit = find_responder_hits [OF i(1) role h first]
  have "handle_udp sod d (Ret (m, src)) (Ret n) written now =
      (upd_peer i (\<lambda>p. handshake_done True now (p\<lparr>addr := src, addr_resolved := True\<rparr>))
         (d\<lparr>rng := r', d_peers := (d_peers d)[i := (d_peers d ! i)\<lparr>sess := s\<rparr>]\<rparr>),
       [Net (UdpSend (udp_fd (d_udp d)) (sin_addr src, sin_port src) response),
        Logged (HandshakeLearned (host (ps_config (d_peers d ! i))) (sin_addr src) (sin_port src))])"
    using ne size m(1) i hit by (simp add: handle_udp_def udp_recv_def handle_unknown_init_def udp_send_def)
  then show thesis by (rule that) (use i(1) in \<open>simp_all add: upd_peer_def\<close>)
qed

section \<open>Properties\<close>

text \<open>C10. Inbound packets are authentic and new: whatever datagram arrives, the daemon writes to the
  interface only the non-empty plaintext of a data message that opens under the receive key of the
  established peer known under the sender's address, with a counter that peer's replay window has
  not admitted before and has admitted afterwards; one datagram causes at most one write, and no other
  peer is touched.\<close>

theorem inbound_packets_authentic:
  assumes "handle_udp sod d answer sent written now = (d', eff)" and "Net (TunWrite fd q) \<in> set eff"
  shows "\<exists>datagram src i body c l. answer = Ret (datagram, src) \<and> i < length (d_peers d) \<and>
    known_as (d_peers d ! i) src \<and> (\<forall>j < i. \<not> known_as (d_peers d ! j) src) \<and>
    take SEALED_BUF_SIZE datagram = SESSION_MSG_DATA # body \<and>
    state (sess (d_peers d ! i)) = SESSION_STATE_ESTABLISHED \<and>
    crypto_open sod (rx (data_keys (sess (d_peers d ! i)))) body MAX_PACKET_SIZE = Some (q, c) \<and>
    (\<forall>S. replay_inv (sess (d_peers d ! i)) S \<longrightarrow> c \<notin> S \<and> replay_inv (sess (d_peers d' ! i)) (insert c S)) \<and>
    q \<noteq> [] \<and> fd = tun_fd (d_tun d) \<and> eff = [Net (TunWrite fd q), Logged l] \<and>
    (\<forall>j. j \<noteq> i \<longrightarrow> d_peers d' ! j = d_peers d ! j)"
proof -
  obtain datagram src i l where w: "answer = Ret (datagram, src)" "find_peer_by_addr (d_peers d) src = Some i"
    "fd = tun_fd (d_tun d)" "q \<noteq> []" "eff = [Net (TunWrite fd q), Logged l]"
    "session_open_data sod (sess (d_peers d ! i)) (take SEALED_BUF_SIZE datagram) MAX_PACKET_SIZE =
       (sess (d_peers d' ! i), Opened q)"
    "\<forall>j. j \<noteq> i \<longrightarrow> d_peers d' ! j = d_peers d ! j"
    using handle_udp_write [OF assms] by metis
  obtain body c where "take SEALED_BUF_SIZE datagram = SESSION_MSG_DATA # body"
    "state (sess (d_peers d ! i)) = SESSION_STATE_ESTABLISHED"
    "crypto_open sod (rx (data_keys (sess (d_peers d ! i)))) body MAX_PACKET_SIZE = Some (q, c)"
    "\<forall>S. replay_inv (sess (d_peers d ! i)) S \<longrightarrow> c \<notin> S \<and> replay_inv (sess (d_peers d' ! i)) (insert c S)"
    using opened_is_authentic [OF w(6)] by blast
  with find_peer_by_addr_Some [OF w(2)] w show ?thesis
    by (intro exI [of _ datagram] exI [of _ src] exI [of _ i] exI [of _ body] exI [of _ c] exI [of _ l]) simp
qed

theorem inbound_packets_authentic_witness:
  "\<exists>d d' eff m i body c. handle_udp demo_sodium d (Ret (m, demo_addr 1)) (Ret 0) (Ret 23) 9 = (d', eff) \<and>
     Net (TunWrite 3 demo_packet) \<in> set eff \<and> known_as (d_peers d ! i) (demo_addr 1) \<and>
     crypto_open demo_sodium (rx (data_keys (sess (d_peers d ! i)))) body MAX_PACKET_SIZE = Some (demo_packet, c)"
proof -
  obtain a b where t: "daemon_inv demo_sodium (demo_daemon CRYPTO_ROLE_INITIATOR 1 2 True a)"
    "daemon_inv demo_sodium (demo_daemon CRYPTO_ROLE_RESPONDER 2 1 True b)"
    "linked (snd a) (snd b)" "replay_inv (snd b) {}" "tx_counter (snd a) = 0"
    by (rule demo_tunnel)
  define d where "d = demo_daemon CRYPTO_ROLE_RESPONDER 2 1 True b"
  have d: "find_peer_by_addr (d_peers d) (demo_addr 1) = Some 0" "sess (d_peers d ! 0) = snd b" "tun_fd (d_tun d) = 3"
    by (simp_all add: d_def demo_daemon_def zero_peer_session_def known_as_def)
  have keys: "state (snd a) = SESSION_STATE_ESTABLISHED" "state (snd b) = SESSION_STATE_ESTABLISHED"
    "tx (data_keys (snd a)) = rx (data_keys (snd b))"
    using t(3) by (simp_all add: linked_def)
  have p: "demo_packet \<noteq> []" "length demo_packet \<le> MAX_PACKET_SIZE" "take MAX_PACKET_SIZE demo_packet = demo_packet"
    by (simp_all add: demo_packet_def const_defs)
  obtain m where m: "sealed_as demo_sodium (rx (data_keys (sess (d_peers d ! 0)))) (tx_counter (snd a)) demo_packet m"
    using seal_packet [OF demo_sodium_ok keys(1), of demo_packet] p(3) keys(3) d(2) by metis
  obtain d' l where u: "handle_udp demo_sodium d (Ret (m, demo_addr 1)) (Ret 0) (Ret 23) 9 =
      (d', [Net (TunWrite (tun_fd (d_tun d)) demo_packet), Logged l])"
    by (rule handle_udp_delivers [OF demo_sodium_ok t(2) [folded d_def] d(1) _ m p(1,2), of "{}" "Ret 0" "Ret 23" 9])
      (use d(2) keys(2) t(4) in \<open>auto simp: replay_admissible_def\<close>)
  have w: "Net (TunWrite 3 demo_packet) \<in> set [Net (TunWrite (tun_fd (d_tun d)) demo_packet), Logged l]"
    by (simp add: d(3))
  obtain i body c where "known_as (d_peers d ! i) (demo_addr 1)"
    "crypto_open demo_sodium (rx (data_keys (sess (d_peers d ! i)))) body MAX_PACKET_SIZE = Some (demo_packet, c)"
    using inbound_packets_authentic [OF u w] by blast
  with u w show ?thesis by blast
qed

text \<open>C11. Forged datagrams are inert: a datagram, from whatever address, that opens under no key of any
  session of the daemon causes nothing to be sent or written, no key to be drawn, and changes no peer
  except for counting the failure: sessions, endpoints, timers and traffic counters stay as they were.\<close>

theorem forged_datagram_inert:
  assumes "handle_udp sod d (Ret (datagram, src)) sent written now = (d', eff)"
    and "\<forall>p \<in> set (d_peers d). \<not> authenticates sod (sess p) (take SEALED_BUF_SIZE datagram)"
  shows "list_all2 same_but_counted (d_peers d) (d_peers d') \<and> rng d' = rng d \<and>
    d_cfg d' = d_cfg d \<and> (\<forall>e. Net e \<notin> set eff)"
proof -
  have cfg: "d_cfg d' = d_cfg d" using handle_udp_reach [OF assms(1)] by (simp add: daemon_reach_def)
  from assms(1) show ?thesis
  proof (cases rule: handle_udp_cases)
    case ignored
    with cfg show ?thesis by (simp add: list_all2_refl)
  next
    case unknown
    with cfg find_responder_forged [OF assms(2)] show ?thesis
      by (auto simp: handle_unknown_init_def list_all2_refl)
  next
    case (known i)
    then have "\<not> authenticates sod (sess (d_peers d ! i)) (take SEALED_BUF_SIZE datagram)"
      using find_peer_by_addr_Some assms(2) by (meson nth_mem)
    from handle_known_forged [OF this known(2)] cfg show ?thesis by simp
  qed
qed

theorem forged_datagram_inert_witness:
  "\<exists>d d' eff. handle_udp demo_sodium d (Ret ([9, 9, 9], demo_addr 1)) (Ret 0) (Ret 0) 9 = (d', eff) \<and>
     length (d_peers d) = 1 \<and> (\<forall>e. Net e \<notin> set eff) \<and> sess (d_peers d' ! 0) = sess (d_peers d ! 0)"
proof -
  define d where "d = demo_daemon CRYPTO_ROLE_RESPONDER 2 1 True (demo_session CRYPTO_ROLE_RESPONDER 2 1 7)"
  obtain d' eff where u: "handle_udp demo_sodium d (Ret ([9, 9, 9], demo_addr 1)) (Ret 0) (Ret 0) 9 = (d', eff)" by fastforce
  have "\<not> authenticates demo_sodium (sess p) (take SEALED_BUF_SIZE [9, 9, 9])" for p
    by (simp add: authenticates_def const_defs)
  with forged_datagram_inert [OF u] have inert: "list_all2 same_but_counted (d_peers d) (d_peers d')" "\<forall>e. Net e \<notin> set eff"
    by blast+
  have l: "length (d_peers d) = 1" by (simp add: d_def demo_daemon_def)
  have "same_but_counted (d_peers d ! 0) (d_peers d' ! 0)"
    using list_all2_nthD [OF inert(1), of 0] l by simp
  then have "sess (d_peers d' ! 0) = sess (d_peers d ! 0)"
    by (cases "d_peers d ! 0"; cases "d_peers d' ! 0") (simp add: same_but_counted_def)
  with u l inert(2) show ?thesis by blast
qed



end
