(* ===== verification/Tunnel.thy ===== *)
theory Tunnel
  imports Daemon_Inbound
begin

text \<open>
  Two daemons and the network between them: bringing a tunnel up (\<open>initiate_handshake\<close>, the
  datagram part of the loop on both sides) and carrying a packet through it, from the interface of
  one machine to the interface of the other (\<open>src/src/main.c\<close> on both ends).
\<close>

section \<open>Lemmas\<close>

lemma route_packet_unique:
  assumes "daemon_inv sod d" and "routing_parse_ipv4_dest p = Some dest" and "i < length (d_peers d)"
    and "covers (ps_config (d_peers d ! i)) dest" and "\<forall>j < i. \<not> covers (ps_config (d_peers d ! j)) dest"
  shows "route_packet (d_cfg d) p = int i"
proof -
  have fits: "config_fits (d_cfg d)" and cfgs: "peers (d_cfg d) = map ps_config (d_peers d)"
    using assms(1) by (auto simp: daemon_inv_def list_all2_conv_all_nth peer_ok_def intro!: nth_equalityI)
  have "\<not> (\<forall>cp \<in> set (peers (d_cfg d)). \<not> covers cp dest)"
    using assms(3,4) by (auto simp: cfgs)
  with route_packet_first [OF fits, of p] assms(2) obtain
    r: "0 \<le> route_packet (d_cfg d) p" "nat (route_packet (d_cfg d) p) < length (d_peers d)"
      "covers (ps_config (d_peers d ! nat (route_packet (d_cfg d) p))) dest"
      "\<forall>j < nat (route_packet (d_cfg d) p). \<not> covers (peers (d_cfg d) ! j) dest"
    by (auto simp: cfgs)
  have "\<not> nat (route_packet (d_cfg d) p) < i" using r(3) assms(5) by blast
  moreover have "\<not> i < nat (route_packet (d_cfg d) p)" using r(4) assms(3,4) by (auto simp: cfgs)
  ultimately show ?thesis using r(1) by simp
qed

text \<open>The first half of a handshake at the initiator's daemon.\<close>

lemma initiate_handshake_sends:
  assumes "addr_resolved p"
    and "session_build_init sod (snd (session_start_handshake sod r (sess p))) SEALED_BUF_SIZE = (s, Some m)"
  shows "initiate_handshake sod res (Ret n) udp SEALED_BUF_SIZE r p now =
    (Suc r, p\<lparr>sess := s, last_rx_activity_ms := now, last_tx_activity_ms := now\<rparr>,
     [Net (UdpSend (udp_fd udp) (sin_addr (addr p), sin_port (addr p)) m), Logged (InitSent (host (ps_config p)))])"
  using assms start_handshake_simps(1) [of sod r "sess p"]
  by (cases "session_start_handshake sod r (sess p)") (simp add: initiate_handshake_def udp_send_def)

text \<open>No other relationship accepts what is sealed under the key.\<close>

definition rejects :: "sodium \<Rightarrow> bytes \<Rightarrow> session \<Rightarrow> bool" where
  "rejects sod key s \<longleftrightarrow>
     (\<forall>c p n sealed. crypto_seal sod key c p n = Some sealed \<longrightarrow>
        crypto_open sod (rx (static_keys s)) sealed CRYPTO_PUBLIC_KEY_BYTES = None)"

lemma rejects_init:
  assumes "rejects sod (tx (static_keys a)) s" and "session_build_init sod a n = (a', Some m)"
  shows "\<not> authenticates sod s m"
  using assms(2)
proof (cases rule: session_build_init_cases)
  case (sent sealed)
  with assms(1) show ?thesis by (auto simp: rejects_def authenticates_def open_handshake_def const_defs)
qed simp

lemma restart_paired:
  assumes "paired a b"
  shows "paired (snd (session_start_handshake sod r a)) b"
  using assms by (simp add: paired_def start_handshake_simps)

lemma handle_udp_response:
  assumes "daemon_inv sod d" and "find_peer_by_addr (d_peers d) src = Some i"
    and "cfg_role (ps_config (d_peers d ! i)) = CRYPTO_ROLE_INITIATOR"
    and "session_handle_response sod (sess (d_peers d ! i)) m = (s, True)"
    and "m ! 0 = SESSION_MSG_HANDSHAKE_RESPONSE" and "length m = SESSION_HANDSHAKE_MSG_LEN"
  obtains d' where "handle_udp sod d (Ret (m, src)) sent written now =
      (d', [Logged (HandshakeComplete (host (ps_config (d_peers d ! i))))])"
    "sess (d_peers d' ! i) = s"
proof -
  have "handle_udp sod d (Ret (m, src)) sent written now = handle_known sod d i m sent written now"
    by (rule handle_udp_known [OF assms(1,2)]) (use assms(6) in \<open>auto simp: const_defs\<close>)
  also have "\<dots> = (upd_peer i (\<lambda>q. handshake_done False now (q\<lparr>sess := s\<rparr>)) d,
      [Logged (HandshakeComplete (host (ps_config (d_peers d ! i))))])"
    using assms(3-5) by (simp add: handle_known_def Let_def const_defs)
  finally show thesis
    by (rule that) (use find_peer_by_addr_Some [OF assms(2)] in \<open>simp add: upd_peer_def\<close>)
qed

text \<open>The initiator's daemon once its init is on the way.\<close>

lemma initiated_daemon:
  assumes "sodium_ok sod" "daemon_inv sod d" "i < length (d_peers d)"
    and "find_peer_by_addr (d_peers d) src = Some i" "addr_resolved (d_peers d ! i)"
    and "initiate_handshake sod res sent (d_udp d) n (rng d) (d_peers d ! i) now = (r, p, eff)"
  shows "daemon_inv sod (d\<lparr>rng := r, d_peers := (d_peers d)[i := p]\<rparr>) \<and>
    find_peer_by_addr ((d_peers d)[i := p]) src = Some i \<and> ps_config p = ps_config (d_peers d ! i)"
proof -
  note reach = initiate_handshake_reach [OF assms(6)]
  have "daemon_reach sod d (d\<lparr>rng := r, d_peers := (d_peers d)[i := p]\<rparr>)"
    using reach assms(3)
    by (auto simp: daemon_reach_def peer_reach_def list_all2_conv_all_nth nth_list_update
        intro: peer_reach_idle [unfolded peer_reach_def, THEN conjunct2, THEN conjunct2])
  from daemon_reach_inv [OF assms(1) this assms(2)] have "daemon_inv sod (d\<lparr>rng := r, d_peers := (d_peers d)[i := p]\<rparr>)" .
  moreover have "addr p = addr (d_peers d ! i) \<and> addr_resolved p"
    using assms(5,6) by (auto simp: initiate_handshake_def Let_def udp_send_def split: prod.splits option.splits sysret.splits)
  then have "find_peer_by_addr ((d_peers d)[i := p]) src = Some i"
    using assms(3-5) find_peer_by_addr_cong [of "(d_peers d)[i := p]" "d_peers d" src]
    by (simp add: map_update list_update_same_conv)
  ultimately show ?thesis using reach by (simp add: peer_reach_def)
qed

section \<open>A response that cannot be sent\<close>

text \<open>If the response to an init from an unknown address cannot be sent, the session is established
  although no address has been learned, and the next packet routed to the peer is sealed and sent to
  whatever its address field holds (zero after startup).\<close>

lemma unsent_response_leaves_no_address:
  assumes ok: "sodium_ok sod" and inv: "daemon_inv sod d"
    and i: "i < length (d_peers d)" "find_peer_by_addr (d_peers d) src = None" "\<not> addr_resolved (d_peers d ! i)"
    and role: "cfg_role (ps_config (d_peers d ! i)) = CRYPTO_ROLE_RESPONDER"
    and h: "session_handle_init sod (rng d) (sess (d_peers d ! i)) m SESSION_HANDSHAKE_MSG_LEN = (r', s, Some response)"
    and first: "\<forall>j < i. \<not> authenticates sod (sess (d_peers d ! j)) m"
    and m: "m ! 0 = SESSION_MSG_HANDSHAKE_INIT" "length m = SESSION_HANDSHAKE_MSG_LEN"
    and route: "route_packet (d_cfg d) (take MAX_PACKET_SIZE packet) = int i"
  shows "\<exists>d' eff m' l. handle_udp sod d (Ret (m, src)) (Fail e) written now = (d', eff) \<and>
    state (sess (d_peers d' ! i)) = SESSION_STATE_ESTABLISHED \<and> \<not> addr_resolved (d_peers d' ! i) \<and>
    snd (handle_tun sod d' (Ret packet) sent now') =
      [Net (UdpSend (udp_fd (d_udp d)) (sin_addr (addr (d_peers d ! i)), sin_port (addr (d_peers d ! i))) m'), Logged l]"
proof -
  define d' where "d' = d\<lparr>rng := r', d_peers := (d_peers d)[i := (d_peers d ! i)\<lparr>sess := s\<rparr>]\<rparr>"
  have ne: "peers (d_cfg d) \<noteq> []" using daemon_inv_nth(1) [OF inv i(1)] i(1) by auto
  have size: "take SEALED_BUF_SIZE m = m" "\<not> length m < 1" using m(2) by (simp_all add: const_defs)
  have u: "handle_udp sod d (Ret (m, src)) (Fail e) written now =
      (d', [Net (UdpSend (udp_fd (d_udp d)) (sin_addr src, sin_port src) response),
            Logged (ResponseNotSent (host (ps_config (d_peers d ! i))) e)])"
    using ne size m(1) i(2) find_responder_hits [OF i(1) role h first]
    by (simp add: handle_udp_def udp_recv_def handle_unknown_init_def udp_send_def d'_def i(1))
  have inv': "daemon_inv sod d'" by (rule daemon_reach_inv [OF ok handle_udp_reach [OF u] inv])
  have p: "d_peers d' ! i = (d_peers d ! i)\<lparr>sess := s\<rparr>" "length (d_peers d') = length (d_peers d)" "d_cfg d' = d_cfg d"
    "d_udp d' = d_udp d"
    using i(1) by (simp_all add: d'_def)
  have est: "state s = SESSION_STATE_ESTABLISHED"
    using answered_is_authentic [OF ok daemon_inv_nth(4) [OF inv i(1)] h] by blast
  obtain d'' eff where t: "handle_tun sod d' (Ret packet) sent now' = (d'', eff)" by fastforce
  obtain m' l where "eff = [Net (fst (udp_send sent (d_udp d') m' (addr (d_peers d' ! i)))), Logged l]"
    by (rule handle_tun_sends [OF ok inv' _ _ _ t, of i]) (use route p i(1) est in simp_all)
  with u t p est i(3) show ?thesis by (auto simp: udp_send_def)
qed

section \<open>Properties\<close>

text \<open>C8. A tunnel comes up: let one daemon have an initiator relationship whose endpoint it knows, and
  another the responder relationship with the matching keys, which has not heard from that address
  yet and whose counter is behind. When the first initiates a handshake and the network delivers its
  init, under the address the second daemon sees it come from, and then the response, both sessions
  are established with matching data keys and empty replay windows, and the second daemon has learned
  the address. Responders the second daemon tries first must reject what the initiator seals.\<close>

theorem tunnel_comes_up:
  assumes "sodium_ok sod" "kx_correct sod" "kx_draws_correct sod"
    and "daemon_inv sod A" "daemon_inv sod B" "i < length (d_peers A)" "j < length (d_peers B)"
    and "paired (sess (d_peers A ! i)) (sess (d_peers B ! j))"
    and "addr_resolved (d_peers A ! i)" "find_peer_by_addr (d_peers A) (addr (d_peers A ! i)) = Some i"
    and "find_peer_by_addr (d_peers B) src = None"
    and "have_seen_handshake (sess (d_peers B ! j)) \<longrightarrow>
      highest_handshake_counter_seen (sess (d_peers B ! j)) < handshake_counter (sess (d_peers A ! i))"
    and "\<forall>k < j. rejects sod (tx (static_keys (sess (d_peers A ! i)))) (sess (d_peers B ! k))"
  shows "\<exists>r p m1 B' m2 A'.
    initiate_handshake sod res (Ret n1) (d_udp A) SEALED_BUF_SIZE (rng A) (d_peers A ! i) t1 =
      (r, p, [Net (UdpSend (udp_fd (d_udp A)) (sin_addr (addr (d_peers A ! i)), sin_port (addr (d_peers A ! i))) m1),
              Logged (InitSent (host (ps_config (d_peers A ! i))))]) \<and>
    handle_udp sod B (Ret (m1, src)) (Ret n2) w2 t2 =
      (B', [Net (UdpSend (udp_fd (d_udp B)) (sin_addr src, sin_port src) m2),
            Logged (HandshakeLearned (host (ps_config (d_peers B ! j))) (sin_addr src) (sin_port src))]) \<and>
    handle_udp sod (A\<lparr>rng := r, d_peers := (d_peers A)[i := p]\<rparr>) (Ret (m2, addr (d_peers A ! i))) n3 w3 t3 =
      (A', [Logged (HandshakeComplete (host (ps_config (d_peers A ! i))))]) \<and>
    linked (sess (d_peers A' ! i)) (sess (d_peers B' ! j)) \<and> known_as (d_peers B' ! j) src \<and>
    replay_inv (sess (d_peers A' ! i)) {} \<and> replay_inv (sess (d_peers B' ! j)) {}"
proof -
  let ?a = "snd (session_start_handshake sod (rng A) (sess (d_peers A ! i)))" and ?b = "sess (d_peers B ! j)"
  have fst: "fst (session_start_handshake sod (rng A) (sess (d_peers A ! i))) = Suc (rng A)"
    by (rule start_handshake_simps)
  have inva: "session_inv sod (Suc (rng A), ?a)"
    using start_handshake_inv [of sod "rng A" "sess (d_peers A ! i)"] fst by (metis prod.collapse)
  note invb = daemon_inv_nth(4) [OF assms(5,7)]
  have room: "SESSION_HANDSHAKE_MSG_LEN \<le> SEALED_BUF_SIZE" by (simp add: const_defs)
  obtain a1 m1 rb' b' m2 a2 where h: "session_build_init sod ?a SEALED_BUF_SIZE = (a1, Some m1)"
    "session_handle_init sod (rng B) ?b m1 SESSION_HANDSHAKE_MSG_LEN = (rb', b', Some m2)"
    "session_handle_response sod a1 m2 = (a2, True)" "linked a2 b'" "replay_inv a2 {}" "replay_inv b' {}"
    by (rule handshake_completes [OF assms(1-3) inva invb restart_paired [OF assms(8)] _ _ room order_refl])
      (use assms(12) in \<open>simp_all add: start_handshake_simps\<close>)
  have m1: "m1 ! 0 = SESSION_MSG_HANDSHAKE_INIT" using h(1) by (cases rule: session_build_init_cases) auto
  have l1: "length m1 = SESSION_HANDSHAKE_MSG_LEN" using session_build_init_length [OF assms(1) inva h(1)] by simp
  have m2: "m2 ! 0 = SESSION_MSG_HANDSHAKE_RESPONSE"
    using assms(1) session_invD(1) [OF assms(1) invb] h(2) by (cases rule: session_handle_init_cases) auto
  have l2: "length m2 = SESSION_HANDSHAKE_MSG_LEN" using session_handle_init_length [OF assms(1) invb h(2)] by simp
  define p where "p = (d_peers A ! i)\<lparr>sess := a1, last_rx_activity_ms := t1, last_tx_activity_ms := t1\<rparr>"
  have init: "initiate_handshake sod res (Ret n1) (d_udp A) SEALED_BUF_SIZE (rng A) (d_peers A ! i) t1 =
      (Suc (rng A), p, [Net (UdpSend (udp_fd (d_udp A)) (sin_addr (addr (d_peers A ! i)), sin_port (addr (d_peers A ! i))) m1),
        Logged (InitSent (host (ps_config (d_peers A ! i))))])"
    unfolding p_def by (rule initiate_handshake_sends [OF assms(9) h(1)])
  have "\<forall>k < j. \<not> authenticates sod (sess (d_peers B ! k)) m1"
    using assms(13) rejects_init [OF _ h(1)] by (simp add: start_handshake_simps)
  then obtain B' where B': "handle_udp sod B (Ret (m1, src)) (Ret n2) w2 t2 =
      (B', [Net (UdpSend (udp_fd (d_udp B)) (sin_addr src, sin_port src) m2),
            Logged (HandshakeLearned (host (ps_config (d_peers B ! j))) (sin_addr src) (sin_port src))])"
    "sess (d_peers B' ! j) = b'" "addr_resolved (d_peers B' ! j)" "addr (d_peers B' ! j) = src"
    using handle_udp_answers [OF assms(5,7,11) _ h(2) _ m1 l1, of n2 w2 t2] daemon_inv_nth(3) [OF assms(5,7)] assms(8)
    by (auto simp: paired_def)
  note A1 = initiated_daemon [OF assms(1,4,6,10,9) init]
  have "cfg_role (ps_config ((d_peers A)[i := p] ! i)) = CRYPTO_ROLE_INITIATOR" "sess ((d_peers A)[i := p] ! i) = a1"
    "ps_config ((d_peers A)[i := p] ! i) = ps_config (d_peers A ! i)"
    using assms(6,8) daemon_inv_nth(3) [OF assms(4,6)] by (simp_all add: p_def paired_def)
  with A1 h(3) obtain A' where "handle_udp sod (A\<lparr>rng := Suc (rng A), d_peers := (d_peers A)[i := p]\<rparr>)
      (Ret (m2, addr (d_peers A ! i))) n3 w3 t3 = (A', [Logged (HandshakeComplete (host (ps_config (d_peers A ! i))))])"
    "sess (d_peers A' ! i) = a2"
    using handle_udp_response [OF A1 [THEN conjunct1], of "addr (d_peers A ! i)" i m2 a2 n3 w3 t3] m2 l2 by auto
  with init B' h(4-6) show ?thesis by (intro exI conjI) (assumption | simp add: known_as_def)+
qed

theorem tunnel_comes_up_witness:
  "\<exists>A B r p m1 B' m2 A' l l' l''.
     initiate_handshake demo_sodium (\<lambda>_. (0, None)) (Ret 57) (d_udp A) SEALED_BUF_SIZE (rng A) (d_peers A ! 0) 1 =
       (r, p, [Net (UdpSend 4 (sin_addr (demo_addr 2), sin_port (demo_addr 2)) m1), Logged l]) \<and>
     handle_udp demo_sodium B (Ret (m1, demo_addr 5)) (Ret 57) (Ret 0) 2 =
       (B', [Net (UdpSend 4 (sin_addr (demo_addr 5), sin_port (demo_addr 5)) m2), Logged l']) \<and>
     handle_udp demo_sodium (A\<lparr>rng := r, d_peers := (d_peers A)[0 := p]\<rparr>) (Ret (m2, demo_addr 2)) (Ret 0) (Ret 0) 3 =
       (A', [Logged l'']) \<and>
     linked (sess (d_peers A' ! 0)) (sess (d_peers B' ! 0))"
proof -
  define a where "a = demo_session CRYPTO_ROLE_INITIATOR 1 2 3"
  define b where "b = demo_session CRYPTO_ROLE_RESPONDER 2 1 7"
  define A where "A = demo_daemon CRYPTO_ROLE_INITIATOR 1 2 True a"
  define B where "B = demo_daemon CRYPTO_ROLE_RESPONDER 2 1 False b"
  have inv: "daemon_inv demo_sodium A" "daemon_inv demo_sodium B"
    unfolding A_def B_def
    by (rule demo_daemon_inv [where n = 3]; simp add: a_def sess_reach.start)
       (rule demo_daemon_inv [where n = 7]; simp add: b_def sess_reach.start)
  have A: "0 < length (d_peers A)" "sess (d_peers A ! 0) = snd a" "addr_resolved (d_peers A ! 0)"
    "addr (d_peers A ! 0) = demo_addr 2" "find_peer_by_addr (d_peers A) (demo_addr 2) = Some 0" "udp_fd (d_udp A) = 4"
    by (simp_all add: A_def demo_daemon_def zero_peer_session_def known_as_def)
  have B: "0 < length (d_peers B)" "sess (d_peers B ! 0) = snd b"
    "find_peer_by_addr (d_peers B) (demo_addr 5) = None" "udp_fd (d_udp B) = 4"
    by (simp_all add: B_def demo_daemon_def zero_peer_session_def known_as_def)
  have "paired (snd a) (snd b)" "\<not> have_seen_handshake (snd b)"
    unfolding a_def b_def by (rule demo_ends)+
  from tunnel_comes_up [OF demo_sodium_ok demo_kx_correct demo_kx_draws_correct inv A(1) B(1), unfolded A(2,4,6) B(2,4),
      OF this(1) A(3,5) B(3), of "\<lambda>_. (0, None)" 57 1 57 "Ret 0" 2 "Ret 0" "Ret 0" 3] this(2)
  show ?thesis by blast
qed

text \<open>C1. End to end through the tunnel: a packet read from the interface of one machine and routed to
  an established peer is sealed and sent there; delivered to that peer's daemon, which has the
  matching keys and knows the address it comes from, it is written to the interface unchanged,
  provided its counter is new and not too old; the network delivering the same datagram again
  causes nothing but a warning.\<close>

theorem packet_crosses_tunnel:
  assumes "sodium_ok sod" "daemon_inv sod A" "daemon_inv sod B"
    and "routing_parse_ipv4_dest packet = Some dest" "length packet \<le> MAX_PACKET_SIZE"
    and "i < length (d_peers A)" "covers (ps_config (d_peers A ! i)) dest"
    and "\<forall>k < i. \<not> covers (ps_config (d_peers A ! k)) dest"
    and "state (sess (d_peers A ! i)) = SESSION_STATE_ESTABLISHED"
    and "find_peer_by_addr (d_peers B) src = Some j" "state (sess (d_peers B ! j)) = SESSION_STATE_ESTABLISHED"
    and "tx (data_keys (sess (d_peers A ! i))) = rx (data_keys (sess (d_peers B ! j)))"
    and "replay_inv (sess (d_peers B ! j)) S" "replay_admissible S (tx_counter (sess (d_peers A ! i)))"
  shows "\<exists>A' m l B' l' B''.
    handle_tun sod A (Ret packet) sent now =
      (A', [Net (UdpSend (udp_fd (d_udp A)) (sin_addr (addr (d_peers A ! i)), sin_port (addr (d_peers A ! i))) m), Logged l]) \<and>
    handle_udp sod B (Ret (m, src)) sent' written now' = (B', [Net (TunWrite (tun_fd (d_tun B)) packet), Logged l']) \<and>
    handle_udp sod B' (Ret (m, src)) sent'' written' now'' =
      (B'', [Logged (DataDropped (host (ps_config (d_peers B' ! j))))]) \<and>
    list_all2 same_but_counted (d_peers B') (d_peers B'')"
proof -
  let ?a = "sess (d_peers A ! i)" and ?b = "sess (d_peers B ! j)"
  have size: "take MAX_PACKET_SIZE packet = packet" using assms(5) by simp
  have route: "route_packet (d_cfg A) (take MAX_PACKET_SIZE packet) = int i"
    unfolding size by (rule route_packet_unique [OF assms(2,4,6-8)])
  obtain A' eff where t: "handle_tun sod A (Ret packet) sent now = (A', eff)" by fastforce
  obtain m l where m: "sealed_as sod (rx (data_keys ?b)) (tx_counter ?a) packet m"
    "eff = [Net (fst (udp_send sent (d_udp A) m (addr (d_peers A ! i)))), Logged l]"
    using handle_tun_sends [OF assms(1,2) route assms(6,9) t] unfolding size assms(12) by metis
  have "packet \<noteq> []" using assms(4) by (auto simp: routing_parse_ipv4_dest_def)
  then obtain B' l' where B': "handle_udp sod B (Ret (m, src)) sent' written now' =
      (B', [Net (TunWrite (tun_fd (d_tun B)) packet), Logged l'])"
    "daemon_inv sod B'" "find_peer_by_addr (d_peers B') src = Some j"
    "state (sess (d_peers B' ! j)) = SESSION_STATE_ESTABLISHED" "data_keys (sess (d_peers B' ! j)) = data_keys ?b"
    "replay_inv (sess (d_peers B' ! j)) (insert (tx_counter ?a) S)"
    by (rule handle_udp_delivers [OF assms(1,3,10,11) m(1) _ assms(5,13,14)])
  have "sealed_as sod (rx (data_keys (sess (d_peers B' ! j)))) (tx_counter ?a) packet m" using m(1) B'(5) by simp
  from handle_udp_refuses_again [OF assms(1) B'(2-4) this assms(5) B'(6), of sent'' written' now'']
  obtain B'' where "handle_udp sod B' (Ret (m, src)) sent'' written' now'' =
      (B'', [Logged (DataDropped (host (ps_config (d_peers B' ! j))))])"
    "list_all2 same_but_counted (d_peers B') (d_peers B'')" by auto
  with t m(2) B'(1) show ?thesis by (auto simp: udp_send_def)
qed

theorem packet_crosses_tunnel_witness:
  "\<exists>A B A' m l B' l' B'' l''.
     handle_tun demo_sodium A (Ret demo_packet) (Ret 48) 1 =
       (A', [Net (UdpSend 4 (sin_addr (demo_addr 2), sin_port (demo_addr 2)) m), Logged l]) \<and>
     handle_udp demo_sodium B (Ret (m, demo_addr 1)) (Ret 0) (Ret 23) 2 = (B', [Net (TunWrite 3 demo_packet), Logged l']) \<and>
     handle_udp demo_sodium B' (Ret (m, demo_addr 1)) (Ret 0) (Ret 23) 3 = (B'', [Logged l''])"
proof -
  obtain a b where t: "daemon_inv demo_sodium (demo_daemon CRYPTO_ROLE_INITIATOR 1 2 True a)"
    "daemon_inv demo_sodium (demo_daemon CRYPTO_ROLE_RESPONDER 2 1 True b)"
    "linked (snd a) (snd b)" "replay_inv (snd b) {}" "tx_counter (snd a) = 0"
    by (rule demo_tunnel)
  define A where "A = demo_daemon CRYPTO_ROLE_INITIATOR 1 2 True a"
  define B where "B = demo_daemon CRYPTO_ROLE_RESPONDER 2 1 True b"
  have A: "0 < length (d_peers A)" "sess (d_peers A ! 0) = snd a" "addr (d_peers A ! 0) = demo_addr 2" "udp_fd (d_udp A) = 4"
    "covers (ps_config (d_peers A ! 0)) (load32 [10, 0, 0, 2])"
    by (simp_all add: A_def demo_daemon_def zero_peer_session_def demo_peer_config_def covers_def)
  have B: "find_peer_by_addr (d_peers B) (demo_addr 1) = Some 0" "sess (d_peers B ! 0) = snd b" "tun_fd (d_tun B) = 3"
    by (simp_all add: B_def demo_daemon_def zero_peer_session_def known_as_def)
  have p: "routing_parse_ipv4_dest demo_packet = Some (load32 [10, 0, 0, 2])" "length demo_packet \<le> MAX_PACKET_SIZE"
    using demo_route(1) by (simp_all add: demo_packet_def const_defs)
  have k: "state (snd a) = SESSION_STATE_ESTABLISHED" "state (snd b) = SESSION_STATE_ESTABLISHED"
    "tx (data_keys (snd a)) = rx (data_keys (snd b))" "replay_admissible {} (tx_counter (snd a))"
    using t(3) by (simp_all add: linked_def replay_admissible_def)
  have none: "\<forall>k < (0 :: nat). \<not> covers (ps_config (d_peers A ! k)) (load32 [10, 0, 0, 2])" by simp
  from packet_crosses_tunnel [OF demo_sodium_ok t(1,2) [folded A_def B_def] p A(1,5) none, unfolded A(2-4) B(2,3),
      OF k(1) B(1), unfolded B(2), OF k(2,3) t(4) k(4), of "Ret 48" 1 "Ret 0" "Ret 23" 2 "Ret 0" "Ret 23" 3]
  show ?thesis by blast
qed

end
