(* ===== verification/Daemon_Lifecycle.thy ===== *)
theory Daemon_Lifecycle
  imports Daemon_Safety
begin

text \<open>
  From startup to shutdown (\<open>main\<close> of \<open>src/src/main.c\<close>): a started daemon keeps its invariant over
  every run of the loop, every exit path closes what was opened, and the timers leave nothing due.
\<close>

section \<open>Descriptors\<close>

text \<open>What the kernel promises about the descriptors it hands out during startup.\<close>

definition fresh_start :: "start_answers \<Rightarrow> kernel \<Rightarrow> bool" where
  "fresh_start ans k \<longleftrightarrow>
     fresh_fd (ans_open (st_tun_open ans)) k \<and>
     (case ans_open (st_tun_open ans) of
        Fail _ \<Rightarrow> True
      | Ret fd \<Rightarrow> fresh_fd (ans_socket (st_tun_configure ans)) (sys_alloc fd k) \<and>
          fresh_fd (ans_udp_socket (st_udp_bind ans)) (sys_alloc fd k))"

lemma fresh_fd_cong: "open_fds k = open_fds k' \<Longrightarrow> fresh_fd r k = fresh_fd r k'"
  by (simp add: fresh_fd_def split: sysret.split)

lemma close_opened:
  "0 \<le> tun_fd dev \<Longrightarrow> tun_fd dev \<notin> F \<Longrightarrow> open_fds k = insert (tun_fd dev) F \<Longrightarrow>
     open_fds (fst (tun_close c k dev)) = F"
  "0 \<le> udp_fd sock \<Longrightarrow> udp_fd sock \<notin> F \<Longrightarrow> open_fds k = insert (udp_fd sock) F \<Longrightarrow>
     open_fds (fst (udp_close c k sock)) = F"
  by (simp_all add: tun_close_def udp_close_def sys_close_def)

text \<open>The descriptors of a running daemon on top of those the process had.\<close>

definition holds_fds :: "kernel \<Rightarrow> int set \<Rightarrow> tun_device \<Rightarrow> udp_socket \<Rightarrow> bool" where
  "holds_fds k F tun udp \<longleftrightarrow>
     open_fds k = insert (udp_fd udp) (insert (tun_fd tun) F) \<and> 0 \<le> tun_fd tun \<and> 0 \<le> udp_fd udp \<and>
     tun_fd tun \<notin> F \<and> udp_fd udp \<notin> insert (tun_fd tun) F"

lemma holds_fds_close:
  "holds_fds k F tun udp \<Longrightarrow> open_fds (fst (tun_close c (fst (udp_close c' k udp)) tun)) = F"
  by (auto simp: holds_fds_def tun_close_def udp_close_def sys_close_def)

lemma daemon_start_fds:
  assumes fresh: "fresh_start ans k" and start: "daemon_start sod ans k = (k', eff, res)"
  shows "case res of Exit code \<Rightarrow> code = 1 \<and> open_fds k' = open_fds k
    | Running d \<Rightarrow> holds_fds k' (open_fds k) (d_tun d) (d_udp d)"
proof (cases "crypto_init sod = 0 \<and> (\<exists>c. config_load sod (st_files ans (config_path (st_env ans))) = Inr c)")
  case False
  with start show ?thesis by (auto simp: daemon_start_def split: if_splits sum.splits)
next
  case True
  then obtain c where init: "crypto_init sod = 0" and
    c: "config_load sod (st_files ans (config_path (st_env ans))) = Inr c" by blast
  obtain k1 tun rc1 where t: "tun_open (st_tun_open ans) k (tun_name c) = (k1, tun, rc1)"
    by (cases "tun_open (st_tun_open ans) k (tun_name c)") auto
  have fr: "fresh_fd (ans_open (st_tun_open ans)) k" using fresh by (simp add: fresh_start_def)
  from fr t show ?thesis
  proof (cases rule: tun_open_cases)
    case (failed e)
    with start init c t show ?thesis by (auto simp: daemon_start_def)
  next
    case (opened fd assigned)
    have k1: "tun_fd tun = fd" "open_fds k1 = insert (tun_fd tun) (open_fds k)" "0 \<le> tun_fd tun" "tun_fd tun \<notin> open_fds k"
      using opened by (simp_all add: sys_alloc_def)
    obtain k2 reqs rc2 where f: "tun_configure (st_tun_configure ans) k1 tun (tun_address c) (tun_netmask c) = (k2, reqs, rc2)"
      by (cases "tun_configure (st_tun_configure ans) k1 tun (tun_address c) (tun_netmask c)") auto
    have "fresh_fd (ans_socket (st_tun_configure ans)) k1" using fresh opened by (simp add: fresh_start_def)
    from tun_configure_fds [OF this, of tun "tun_address c" "tun_netmask c"] f k1
    have k2: "open_fds k2 = insert (tun_fd tun) (open_fds k)" by simp
    have fr2: "fresh_fd (ans_udp_socket (st_udp_bind ans)) k2"
      using fresh opened fresh_fd_cong [of k2 k1] k1(2) k2 by (simp add: fresh_start_def)
    obtain k3 udp rc3 where u: "udp_bind (st_udp_bind ans) k2 (listen_port c) = (k3, udp, rc3)"
      by (cases "udp_bind (st_udp_bind ans) k2 (listen_port c)") auto
    note tun_closed = close_opened(1) [OF k1(3,4)]
    from fr2 u show ?thesis
    proof (cases rule: udp_bind_cases)
      case (failed e)
      with start init c t opened(1) f u tun_closed k2 show ?thesis
        by (auto simp: daemon_start_def split: if_splits)
    next
      case (bound fd')
      have h: "holds_fds k3 (open_fds k) tun udp"
        using bound k1 k2 by (auto simp: holds_fds_def sys_alloc_def)
      with start init c t opened(1) f u bound(1) tun_closed k2 holds_fds_close [OF h] show ?thesis
        by (auto simp: daemon_start_def split: if_splits prod.splits)
    qed
  qed
qed

section \<open>Timers\<close>

definition keepalive_due :: "u64 \<Rightarrow> peer_session \<Rightarrow> bool" where
  "keepalive_due now p \<longleftrightarrow> addr_resolved p \<and> state (sess p) = SESSION_STATE_ESTABLISHED \<and>
     KEEPALIVE_INTERVAL_MS \<le> now - last_tx_activity_ms p"

definition timeout_due :: "u64 \<Rightarrow> peer_session \<Rightarrow> bool" where
  "timeout_due now p \<longleftrightarrow> cfg_role (ps_config p) = CRYPTO_ROLE_INITIATOR \<and>
     SESSION_TIMEOUT_MS \<le> now - last_rx_activity_ms p"

definition rotation_due :: "u64 \<Rightarrow> peer_session \<Rightarrow> bool" where
  "rotation_due now p \<longleftrightarrow> cfg_role (ps_config p) = CRYPTO_ROLE_INITIATOR \<and>
     state (sess p) = SESSION_STATE_ESTABLISHED \<and> KEY_ROTATION_INTERVAL_MS \<le> now - last_handshake_completed_ms p"

lemmas due_defs = keepalive_due_def timeout_due_def rotation_due_def

text \<open>Initiating a handshake on a resolved peer.\<close>

lemma initiate_handshake_resolved:
  assumes ok: "sodium_ok sod" and role: "role (sess p) = CRYPTO_ROLE_INITIATOR" and res: "addr_resolved p"
    and i: "initiate_handshake sod resolve sent udp SEALED_BUF_SIZE r p now = (r', p', eff)"
  obtains m l where "r' = Suc r" "eff = [Net (UdpSend (udp_fd udp) (sin_addr (addr p), sin_port (addr p)) m), Logged l]"
    "crypto_seal sod (tx (static_keys (sess p))) (handshake_counter (sess p)) (fst (kx_keypair sod r)) (SEALED_BUF_SIZE - 1) =
       Some (tl m)" "hd m = SESSION_MSG_HANDSHAKE_INIT" "m \<noteq> []"
    "state (sess p') = SESSION_STATE_HANDSHAKE_PENDING" "local_eph_pk (sess p') = fst (kx_keypair sod r)"
    "tx_counter (sess p') = 0" "last_rx_activity_ms p' = now" "last_tx_activity_ms p' = now"
    "ps_config p' = ps_config p"
proof -
  obtain s1 where s1: "session_start_handshake sod r (sess p) = (Suc r, s1)"
    using start_handshake_simps(1) [of sod r "sess p"] by (metis prod.collapse)
  note f = start_handshake_simps [of sod r "sess p", unfolded s1 snd_conv]
  have "crypto_seal sod (tx (static_keys s1)) (handshake_counter s1) (local_eph_pk s1) (SEALED_BUF_SIZE - 1) \<noteq> None"
    using kx_keypair_facts(1) [OF ok, of r] f(5) crypto_seal_None [OF sodium_okD(1) [OF ok]] by (simp add: const_defs)
  then obtain sealed where seal: "crypto_seal sod (tx (static_keys s1)) (handshake_counter s1) (local_eph_pk s1) (SEALED_BUF_SIZE - 1) = Some sealed"
    by blast
  have build: "session_build_init sod s1 SEALED_BUF_SIZE =
      (s1\<lparr>pending_handshake_counter := handshake_counter s1, handshake_counter := handshake_counter s1 + 1\<rparr>,
       Some (SESSION_MSG_HANDSHAKE_INIT # sealed))"
    using f role seal by (simp add: session_build_init_def const_defs)
  show thesis
    by (rule that [of "SESSION_MSG_HANDSHAKE_INIT # sealed" 
        "case sent of Fail _ \<Rightarrow> InitNotSent (host (ps_config p)) | Ret _ \<Rightarrow> InitSent (host (ps_config p))"])
      (use i res s1 build f seal in \<open>auto simp: initiate_handshake_def udp_send_def Let_def split: sysret.splits\<close>)
qed

text \<open>Whatever happens in it, an attempt counts as activity and leaves no established session with a
  known address behind.\<close>

lemma initiate_handshake_settles:
  assumes "initiate_handshake sod resolve sent udp n r p now = (r', p', eff)"
  shows "last_rx_activity_ms p' = now \<and> ps_config p' = ps_config p \<and>
    (addr_resolved p' \<longrightarrow> state (sess p') = SESSION_STATE_HANDSHAKE_PENDING)"
proof -
  have b: "state s' = SESSION_STATE_HANDSHAKE_PENDING"
    if "session_start_handshake sod r (sess q) = (r1, s)" "session_build_init sod s n = (s', m)" for q r1 s s' m
  proof -
    have "state s = SESSION_STATE_HANDSHAKE_PENDING"
      using start_handshake_simps(4) [of sod r "sess q"] that(1) by simp
    with that(2) show ?thesis by (cases rule: session_build_init_cases) simp_all
  qed
  show ?thesis
    using assms
    by (auto simp: initiate_handshake_def Let_def udp_send_def dest: b
        split: if_splits option.splits prod.splits sysret.splits)
qed

lemma keepalive_timer_frame:
  assumes "keepalive_timer sod sent udp now p = (p', eff)"
  shows "\<not> keepalive_due now p'" "ps_config p' = ps_config p" "addr_resolved p' = addr_resolved p" "addr p' = addr p"
    "last_rx_activity_ms p' = last_rx_activity_ms p" "last_handshake_completed_ms p' = last_handshake_completed_ms p"
    "state (sess p') = state (sess p)" "role (sess p') = role (sess p)" "static_keys (sess p') = static_keys (sess p)"
    "handshake_counter (sess p') = handshake_counter (sess p)"
proof -
  have "state s' = state s \<and> role s' = role s \<and> static_keys s' = static_keys s \<and> handshake_counter s' = handshake_counter s"
    if "session_seal_data sod s q n = (s', m)" for s s' q n m
    using that by (cases rule: session_seal_data_cases) simp_all
  then show "\<not> keepalive_due now p'" "ps_config p' = ps_config p" "addr_resolved p' = addr_resolved p" "addr p' = addr p"
    "last_rx_activity_ms p' = last_rx_activity_ms p" "last_handshake_completed_ms p' = last_handshake_completed_ms p"
    "state (sess p') = state (sess p)" "role (sess p') = role (sess p)" "static_keys (sess p') = static_keys (sess p)"
    "handshake_counter (sess p') = handshake_counter (sess p)"
    using assms
    by (auto simp: keepalive_timer_def keepalive_due_def udp_send_def const_defs
        split: if_splits option.splits prod.splits sysret.splits)
qed

text \<open>The two timers of a peer in terms of what is due.\<close>

lemma handshake_timer_due:
  "handshake_timer sod ans udp now r p =
     (if timeout_due now p \<or> rotation_due now p
      then (case initiate_handshake sod (ans_resolve ans) (ans_init ans) udp SEALED_BUF_SIZE r p now of
              (r', p', eff) \<Rightarrow>
                (r', p', (if timeout_due now p
                          then if addr_resolved p
                               then [Logged (HeardNothing (host (ps_config p)) (ucast (now - last_rx_activity_ms p)))] else []
                          else [Logged (RotatingKeys (host (ps_config p)) (ucast (now - last_handshake_completed_ms p)))]) @ eff))
      else (r, p, []))"
  by (auto simp: handshake_timer_def timeout_due_def rotation_due_def split: prod.split)

lemma peer_timers_settled:
  assumes "peer_timers sod ans udp now r p = (r', p', eff)"
  shows "\<not> keepalive_due now p' \<and> \<not> timeout_due now p' \<and> (addr_resolved p' \<longrightarrow> \<not> rotation_due now p')"
proof -
  obtain p1 eff1 where k: "keepalive_timer sod (ans_keepalive ans) udp now p = (p1, eff1)" by fastforce
  obtain r2 p2 eff2 where h: "handshake_timer sod ans udp now r p1 = (r2, p2, eff2)"
    by (cases "handshake_timer sod ans udp now r p1") auto
  have p': "p' = p2" using assms k h by (simp add: peer_timers_def)
  show ?thesis
  proof (cases "timeout_due now p1 \<or> rotation_due now p1")
    case False
    with h keepalive_timer_frame(1) [OF k] show ?thesis by (simp add: handshake_timer_due p')
  next
    case True
    obtain r3 p3 eff3 where i: "initiate_handshake sod (ans_resolve ans) (ans_init ans) udp SEALED_BUF_SIZE r p1 now = (r3, p3, eff3)"
      by (cases "initiate_handshake sod (ans_resolve ans) (ans_init ans) udp SEALED_BUF_SIZE r p1 now") auto
    with True h have "p2 = p3" by (simp add: handshake_timer_due)
    with initiate_handshake_settles [OF i] show ?thesis by (auto simp: p' due_defs const_defs)
  qed
qed

lemma peer_timers_idle:
  assumes "\<not> keepalive_due now p" "\<not> timeout_due now p" "\<not> rotation_due now p"
  shows "peer_timers sod ans udp now r p = (r, p, [])"
proof -
  have "keepalive_timer sod (ans_keepalive ans) udp now p = (p, [])"
    using assms(1) by (auto simp: keepalive_timer_def keepalive_due_def)
  with assms show ?thesis by (simp add: peer_timers_def handshake_timer_due)
qed

lemma all_timers_nth:
  assumes "all_timers sod ans udp now k r ps = (r', ps', eff)" and "i < length ps"
  shows "\<exists>r1 r2 eff'. r \<le> r1 \<and> r2 \<le> r' \<and> peer_timers sod (ans (k + i)) udp now r1 (ps ! i) = (r2, ps' ! i, eff') \<and>
    set eff' \<subseteq> set eff"
  using assms
proof (induction ps arbitrary: k r ps' eff i)
  case (Cons p ps)
  obtain r1 p1 eff1 where one: "peer_timers sod (ans k) udp now r p = (r1, p1, eff1)"
    by (cases "peer_timers sod (ans k) udp now r p") auto
  obtain r2 ps2 eff2 where rest: "all_timers sod ans udp now (Suc k) r1 ps = (r2, ps2, eff2)"
    by (cases "all_timers sod ans udp now (Suc k) r1 ps") auto
  have res: "r' = r2" "ps' = p1 # ps2" "eff = eff1 @ eff2" using Cons.prems(1) one rest by simp_all
  show ?case
  proof (cases i)
    case 0
    with one res all_timers_reach [OF rest] show ?thesis by auto
  next
    case (Suc j)
    have le: "r \<le> r1" using peer_timers_reach [OF one] by (simp add: peer_reach_def)
    from Suc Cons.IH [OF rest [folded res(1)], of j] Cons.prems(2) obtain r3 r4 eff' where
      "r1 \<le> r3" "r4 \<le> r'" "peer_timers sod (ans (Suc k + j)) udp now r3 (ps ! j) = (r4, ps2 ! j, eff')" "set eff' \<subseteq> set eff2"
      by auto
    with Suc res le show ?thesis by (intro exI [of _ r3] exI [of _ r4] exI [of _ eff']) auto
  qed
qed simp

lemma all_timers_idle:
  assumes "\<forall>p \<in> set ps. \<not> keepalive_due now p \<and> \<not> timeout_due now p \<and> \<not> rotation_due now p"
  shows "all_timers sod ans udp now k r ps = (r, ps, [])"
  using assms by (induction ps arbitrary: k) (simp_all add: peer_timers_idle)

section \<open>A start for the witnesses\<close>

definition demo_start :: start_answers where
  "demo_start =
     \<lparr>st_env = (\<lambda>_. None), st_files = (\<lambda>_. Some (config_text demo_sodium 24 demo_config)),
      st_tun_open = \<lparr>ans_open = Ret 3, ans_tunsetiff = (\<lambda>n f. Ret n), ans_open_close = 0\<rparr>,
      st_tun_configure = \<lparr>ans_socket = Ret 4, ans_ioctl = (\<lambda>_. Ret 0), ans_close = 0\<rparr>,
      st_udp_bind = \<lparr>ans_udp_socket = Ret 4, ans_bind = (\<lambda>_. Ret ()), ans_udp_close = 0\<rparr>,
      st_tun_close = 0, st_udp_close = 0, st_wall_clock = (\<lambda>_. 1000), st_now = (\<lambda>_. 1), st_init_now = (\<lambda>_. 2),
      st_resolve = (\<lambda>_ _. (0, None)), st_sent = (\<lambda>_. Ret 57), st_stats_now = 3\<rparr>"

lemma demo_start_fresh: "fresh_start demo_start demo_kernel"
  by (simp add: fresh_start_def demo_start_def fresh_fd_def sys_alloc_def demo_kernel_def)

lemma demo_starts:
  obtains k eff d where "daemon_start demo_sodium demo_start demo_kernel = (k, eff, Running d)"
    "length (d_peers d) = 1" "d_cfg d = demo_config"
proof -
  have c: "config_load demo_sodium (st_files demo_start (config_path (st_env demo_start))) = Inr demo_config"
    using config_load_printed [OF demo_base64_correct demo_base64_text demo_config_printable]
    by (simp add: demo_start_def)
  have i: "crypto_init demo_sodium = 0" by (simp add: crypto_init_def demo_sodium_def)
  obtain k1 tun where t: "tun_open (st_tun_open demo_start) demo_kernel (tun_name demo_config) = (k1, tun, 0)"
    by (simp add: demo_start_def tun_open_def Let_def)
  obtain k2 reqs where f: "tun_configure (st_tun_configure demo_start) k1 tun (tun_address demo_config) (tun_netmask demo_config) = (k2, reqs, 0)"
    using config_load_valid [OF c] by (auto simp: tun_configure_def demo_start_def set_ifreq_ipv4_def Let_def)
  obtain k3 udp where u: "udp_bind (st_udp_bind demo_start) k2 (listen_port demo_config) = (k3, udp, 0)"
    by (simp add: demo_start_def udp_bind_def Let_def)
  have "session_init demo_sodium 0 n CRYPTO_ROLE_RESPONDER pk (replicate 32 7) (replicate 32 9) \<noteq> None" for n pk
    by (simp add: session_init_def demo_derive Let_def)
  then obtain r s where s: "session_init demo_sodium 0 (st_wall_clock demo_start 0) CRYPTO_ROLE_RESPONDER
      (crypto_derive_public_key demo_sodium (replicate 32 7)) (replicate 32 7) (replicate 32 9) = Some (r, s)"
    by fastforce
  have p: "peers demo_config = [\<lparr>host = ''peer2'', port = 51820, public_key = replicate 32 9,
      cfg_role = CRYPTO_ROLE_RESPONDER, allowed_address = load32 [10, 0, 0, 2], allowed_prefix = 32\<rparr>]"
    "private_key demo_config = replicate 32 7"
    by (simp_all add: demo_config_def)
  obtain ps eff where "start_peers demo_sodium demo_start (crypto_derive_public_key demo_sodium (private_key demo_config))
      (private_key demo_config) udp 0 0 (peers demo_config) = (r, ps, eff, True)" "length ps = 1"
    by (simp add: p s)
  then have "daemon_start demo_sodium demo_start demo_kernel = (k3, eff @ [Logged (UpWithPeers (dev_name tun) (tun_address demo_config) (tun_netmask demo_config)
        (listen_port demo_config) (length (peers demo_config)))],
      Running \<lparr>d_cfg = demo_config, d_tun = tun, d_udp = udp, rng = r, d_peers = ps,
        last_stats_ms = st_stats_now demo_start\<rparr>)"
    using p(1) by (simp add: daemon_start_def c i t f u)
  then show thesis by (rule that) (simp_all add: \<open>length ps = 1\<close>)
qed

section \<open>Properties\<close>

text \<open>C14. The daemon's invariant: from startup on, whatever the kernel, the clock and the network do, over
  any number of iterations of the loop, the peers stay those of the configuration file; each session
  has its configured role, the static keys derived from the two configured keys, and satisfies the
  session invariant; each peer's session has moved only by calls of the session interface; the
  interface and the socket stay the same.\<close>

theorem daemon_invariant_all_runs:
  assumes "sodium_ok sod" and "daemon_start sod ans k = (k', eff, Running d)"
  shows "case main_loop sod d its of (d', eff') \<Rightarrow>
    daemon_inv sod d' \<and> config_load sod (st_files ans (config_path (st_env ans))) = Inr (d_cfg d') \<and>
    d_tun d' = d_tun d \<and> d_udp d' = d_udp d \<and>
    list_all2 (\<lambda>p p'. sess_reach sod (rng d, sess p) (rng d', sess p')) (d_peers d) (d_peers d')"
proof -
  obtain d' eff' where l: "main_loop sod d its = (d', eff')" by fastforce
  have reach: "daemon_reach sod d d'" using main_loop_reach [OF daemon_start_match [OF assms(2)], of sod its] l by simp
  note start = daemon_start_inv [OF assms]
  have "list_all2 (\<lambda>p p'. sess_reach sod (rng d, sess p) (rng d', sess p')) (d_peers d) (d_peers d')"
    using reach by (auto simp: daemon_reach_def peer_reach_def elim: list_all2_mono)
  with start daemon_reach_inv [OF assms(1) reach] reach l show ?thesis by (simp add: daemon_reach_def)
qed

theorem daemon_invariant_all_runs_witness:
  "\<exists>k eff d. daemon_start demo_sodium demo_start demo_kernel = (k, eff, Running d) \<and> length (d_peers d) = 1 \<and>
     daemon_inv demo_sodium (fst (main_loop demo_sodium d
       [\<lparr>it_running = True, it_poll = PollReady True True, it_packet = Ret demo_packet, it_tun_sent = Ret 0, it_tun_now = 5,
         it_datagram = Ret ([1, 2, 3], demo_addr 9), it_udp_sent = Ret 0, it_written = Ret 0, it_udp_now = 6,
         it_timers = (\<lambda>_. \<lparr>ans_keepalive = Ret 0, ans_init = Ret 0, ans_resolve = (\<lambda>_. (0, None))\<rparr>), it_now = 7\<rparr>]))"
proof -
  obtain k eff d where d: "daemon_start demo_sodium demo_start demo_kernel = (k, eff, Running d)"
    "length (d_peers d) = 1" "d_cfg d = demo_config"
    by (rule demo_starts)
  have "daemon_inv demo_sodium (fst (main_loop demo_sodium d its))" for its
    using daemon_invariant_all_runs [OF demo_sodium_ok d(1), of its] by (simp add: split_beta)
  with d show ?thesis by blast
qed





text \<open>C15. Dead peers and old keys are handled by a fresh handshake: when an initiator has heard nothing
  from a peer with a known address for \<open>SESSION_TIMEOUT_MS\<close>, or its established keys are older
  than \<open>KEY_ROTATION_INTERVAL_MS\<close>, the next run of the timers puts the session in its pending
  state with a key pair drawn during that run and a reset transmit counter, and sends to the peer
  an init that carries the new public key sealed under the next handshake counter.\<close>

theorem stale_session_rehandshakes:
  assumes "sodium_ok sod" "daemon_inv sod d" "i < length (d_peers d)"
    and "addr_resolved (d_peers d ! i)" "timeout_due now (d_peers d ! i) \<or> rotation_due now (d_peers d ! i)"
    and "handle_timers sod d ans now = (d', eff)"
  shows "\<exists>k m. rng d \<le> k \<and> k < rng d' \<and>
    Net (UdpSend (udp_fd (d_udp d)) (sin_addr (addr (d_peers d ! i)), sin_port (addr (d_peers d ! i)))
      (SESSION_MSG_HANDSHAKE_INIT # m)) \<in> set eff \<and>
    crypto_seal sod (tx (static_keys (sess (d_peers d ! i)))) (handshake_counter (sess (d_peers d ! i)))
      (fst (kx_keypair sod k)) (SEALED_BUF_SIZE - 1) = Some m \<and>
    state (sess (d_peers d' ! i)) = SESSION_STATE_HANDSHAKE_PENDING \<and>
    local_eph_pk (sess (d_peers d' ! i)) = fst (kx_keypair sod k) \<and> tx_counter (sess (d_peers d' ! i)) = 0"
proof -
  let ?p = "d_peers d ! i"
  have ne: "peers (d_cfg d) \<noteq> []" using daemon_inv_nth(1) [OF assms(2,3)] assms(3) by auto
  obtain r ps eff1 where t: "all_timers sod ans (d_udp d) now 0 (rng d) (d_peers d) = (r, ps, eff1)"
    by (cases "all_timers sod ans (d_udp d) now 0 (rng d) (d_peers d)") auto
  have d': "d_peers d' = ps" "rng d' = r" "set eff1 \<subseteq> set eff"
    using assms(6) ne t by (auto simp: handle_timers_def Let_def split: if_splits)
  obtain r1 r2 eff2 where one: "rng d \<le> r1" "r2 \<le> r" "peer_timers sod (ans i) (d_udp d) now r1 ?p = (r2, ps ! i, eff2)"
    "set eff2 \<subseteq> set eff1"
    using all_timers_nth [OF t assms(3)] by auto
  obtain p1 eff3 where k: "keepalive_timer sod (ans_keepalive (ans i)) (d_udp d) now ?p = (p1, eff3)" by fastforce
  note fr = keepalive_timer_frame [OF k]
  obtain r4 p4 eff4 where h: "initiate_handshake sod (ans_resolve (ans i)) (ans_init (ans i)) (d_udp d) SEALED_BUF_SIZE r1 p1 now = (r4, p4, eff4)"
    by (cases "initiate_handshake sod (ans_resolve (ans i)) (ans_init (ans i)) (d_udp d) SEALED_BUF_SIZE r1 p1 now") auto
  have "timeout_due now p1 \<or> rotation_due now p1" using assms(5) fr by (simp add: due_defs)
  with one(3) k h have res: "r4 = r2" "p4 = ps ! i" "set eff4 \<subseteq> set eff2"
    by (auto simp: peer_timers_def handshake_timer_due)
  have "role (sess p1) = CRYPTO_ROLE_INITIATOR" "addr_resolved p1"
    using assms(4,5) fr daemon_inv_nth(3) [OF assms(2,3)] by (auto simp: due_defs)
  then obtain m l where m: "r4 = Suc r1" "eff4 = [Net (UdpSend (udp_fd (d_udp d)) (sin_addr (addr p1), sin_port (addr p1)) m), Logged l]"
    "crypto_seal sod (tx (static_keys (sess p1))) (handshake_counter (sess p1)) (fst (kx_keypair sod r1)) (SEALED_BUF_SIZE - 1) = Some (tl m)"
    "hd m = SESSION_MSG_HANDSHAKE_INIT" "state (sess p4) = SESSION_STATE_HANDSHAKE_PENDING"
    "local_eph_pk (sess p4) = fst (kx_keypair sod r1)" "tx_counter (sess p4) = 0" "m \<noteq> []"
    using initiate_handshake_resolved [OF assms(1) _ _ h] by metis
  then have "SESSION_MSG_HANDSHAKE_INIT # tl m = m" by (metis list.collapse)
  with m res one d' fr show ?thesis by (intro exI [of _ r1] exI [of _ "tl m"]) auto
qed

theorem stale_session_rehandshakes_witness:
  "\<exists>d d' eff m. handle_timers demo_sodium d (\<lambda>_. \<lparr>ans_keepalive = Ret 0, ans_init = Ret 0, ans_resolve = (\<lambda>_. (0, None))\<rparr>) 15000 =
       (d', eff) \<and> state (sess (d_peers d ! 0)) = SESSION_STATE_ESTABLISHED \<and>
     Net (UdpSend 4 (sin_addr (demo_addr 2), sin_port (demo_addr 2)) (SESSION_MSG_HANDSHAKE_INIT # m)) \<in> set eff \<and>
     state (sess (d_peers d' ! 0)) = SESSION_STATE_HANDSHAKE_PENDING"
proof -
  obtain a b where t: "daemon_inv demo_sodium (demo_daemon CRYPTO_ROLE_INITIATOR 1 2 True a)"
    "daemon_inv demo_sodium (demo_daemon CRYPTO_ROLE_RESPONDER 2 1 True b)"
    "linked (snd a) (snd b)" "replay_inv (snd b) {}" "tx_counter (snd a) = 0"
    by (rule demo_tunnel)
  define d where "d = demo_daemon CRYPTO_ROLE_INITIATOR 1 2 True a"
  let ?ans = "\<lambda>_. \<lparr>ans_keepalive = Ret 0, ans_init = Ret 0, ans_resolve = (\<lambda>_. (0, None))\<rparr>"
  obtain d' eff where h: "handle_timers demo_sodium d ?ans 15000 = (d', eff)" by fastforce
  have d: "0 < length (d_peers d)" "addr_resolved (d_peers d ! 0)" "addr (d_peers d ! 0) = demo_addr 2"
    "udp_fd (d_udp d) = 4" "timeout_due 15000 (d_peers d ! 0)" "state (sess (d_peers d ! 0)) = SESSION_STATE_ESTABLISHED"
    using t(3)
    by (simp_all add: d_def demo_daemon_def zero_peer_session_def demo_peer_config_def timeout_due_def linked_def const_defs)
  from stale_session_rehandshakes [OF demo_sodium_ok t(1) [folded d_def] d(1,2) disjI1 [OF d(5)] h, unfolded d(3,4)] h d(6)
  show ?thesis by blast
qed

end
