(* ===== verification/Daemon_Freshness.thy ===== *)
theory Daemon_Freshness
  imports Daemon_Safety
begin

text \<open>
  What the daemon inherits from the machine it implements (theories Process and Daemon_Refinement),
  over whole runs of its loop, whatever the network, the clock and the kernel do: the nonces it
  seals under and the data packets it accepts are never used twice under one key.
\<close>

section \<open>How much an iteration emits\<close>

lemma handle_tun_emits: "handle_tun sod d answer sent now = (d', eff) \<Longrightarrow> length (emitted eff) \<le> 1"
  by (auto simp: handle_tun_def Let_def udp_send_def split: sysret.splits if_splits prod.splits option.splits)

lemma handle_known_emits: "handle_known sod d i inp sent written now = (d', eff) \<Longrightarrow> length (emitted eff) \<le> 1"
  by (erule handle_known_cases) simp_all

lemma handle_udp_emits: "handle_udp sod d answer sent written now = (d', eff) \<Longrightarrow> length (emitted eff) \<le> 1"
  by (auto simp: handle_udp_def handle_unknown_init_def Let_def udp_send_def dest: handle_known_emits
      split: sysret.splits if_splits prod.splits option.splits)

lemma peer_timers_emits: "peer_timers sod ans udp now r p = (r', p', eff) \<Longrightarrow> length (emitted eff) \<le> 2"
proof -
  assume t: "peer_timers sod ans udp now r p = (r', p', eff)"
  have "length (emitted e) \<le> 1" if "initiate_handshake sod res sent udp n r q now = (r1, q', e)" for res sent n q r1 q' e
    using that by (auto simp: initiate_handshake_def Let_def udp_send_def split: if_splits option.splits prod.splits sysret.splits)
  then have "length (emitted e) \<le> 1" if "handshake_timer sod ans udp now r q = (r1, q', e)" for q r1 q' e
    using that by (fastforce simp: handshake_timer_def split: if_splits prod.splits)
  moreover have "length (emitted e) \<le> 1" if "keepalive_timer sod sent udp now q = (q', e)" for sent q q' e
    using that by (auto simp: keepalive_timer_def udp_send_def split: if_splits option.splits prod.splits sysret.splits)
  ultimately show ?thesis using t by (fastforce simp: peer_timers_def split: prod.splits)
qed

lemma all_timers_emits:
  "all_timers sod ans udp now i r ps = (r', ps', eff) \<Longrightarrow> length (emitted eff) \<le> 2 * length ps"
proof (induction ps arbitrary: i r ps' eff)
  case (Cons p ps)
  then show ?case by (fastforce dest: peer_timers_emits split: prod.splits)
qed simp

lemma loop_body_emits:
  assumes "loop_body sod d it = (d', eff, b)" and "peers_match d"
  shows "length (emitted eff) \<le> 2 + 2 * length (d_peers d)"
proof (cases "it_poll it")
  case (PollError e)
  with assms show ?thesis by (auto simp: loop_body_def split: if_splits)
next
  case (PollReady tun_in udp_in)
  obtain d1 eff1 where h1: "(if tun_in then handle_tun sod d (it_packet it) (it_tun_sent it) (it_tun_now it)
      else (d, [])) = (d1, eff1)" by fastforce
  obtain d2 eff2 where h2: "(if udp_in then handle_udp sod d1 (it_datagram it) (it_udp_sent it) (it_written it) (it_udp_now it)
      else (d1, [])) = (d2, eff2)" by fastforce
  obtain d3 eff3 where h3: "handle_timers sod d2 (it_timers it) (it_now it) = (d3, eff3)" by fastforce
  have "daemon_simulates sod d (emitted eff1) d1" "daemon_simulates sod d1 (emitted eff2) d2"
    using h1 h2 handle_tun_simulates [OF assms(2)] handle_udp_simulates by (auto split: if_splits)
  then have "length (d_peers d2) = length (d_peers d)"
    by (simp add: daemon_simulates_length)
  then have "length (emitted eff3) \<le> 2 * length (d_peers d)"
    using h3 by (auto simp: handle_timers_def Let_def dest: all_timers_emits split: if_splits prod.splits)
  moreover have "length (emitted eff1) \<le> 1" "length (emitted eff2) \<le> 1"
    using h1 h2 handle_tun_emits handle_udp_emits by (auto split: if_splits)
  moreover have "eff = eff1 @ eff2 @ eff3" using assms(1) PollReady h1 h2 h3 by (auto simp: loop_body_def)
  ultimately show ?thesis by simp
qed

lemma main_loop_emits:
  assumes "peers_match d" and "main_loop sod d its = (d', eff)"
  shows "length (emitted eff) \<le> length its * (2 + 2 * length (d_peers d))"
  using assms
proof (induction its arbitrary: d eff)
  case (Cons it its)
  obtain d1 eff1 b where body: "loop_body sod d it = (d1, eff1, b)"
    by (cases "loop_body sod d it") auto
  obtain d2 eff2 where rest: "main_loop sod d1 its = (d2, eff2)" by fastforce
  note sim = loop_body_simulates [OF Cons.prems(1) body]
  have "length (d_peers d1) = length (d_peers d)" by (rule daemon_simulates_length [OF sim])
  moreover have "length (emitted eff1) \<le> 2 + 2 * length (d_peers d)" by (rule loop_body_emits [OF body Cons.prems(1)])
  moreover have "length (emitted eff2) \<le> length its * (2 + 2 * length (d_peers d1))" if "d2 = d'"
    using Cons.IH [OF daemon_simulates_match [OF sim Cons.prems(1)]] rest that by blast
  ultimately show ?case using Cons.prems(2) body rest by (auto split: if_splits bool.splits)
qed simp

section \<open>Runs of the daemon and runs of the machine\<close>

text \<open>The calls \<open>xs\<close> lead between the sessions of the two states and return what the effects emit.\<close>

definition corresponds ::
  "sodium \<Rightarrow> daemon \<Rightarrow> (nat \<times> session_event) list \<Rightarrow> daemon \<Rightarrow> effect list \<Rightarrow> bool" where
  "corresponds sod d xs d' eff \<longleftrightarrow>
     proc_run sod (proc_of (rng d) (d_peers d)) xs = proc_of (rng d') (d_peers d') \<and>
     proc_outputs sod (proc_of (rng d) (d_peers d)) xs = emitted eff"

lemma main_loop_corresponds:
  "peers_match d \<Longrightarrow> main_loop sod d its = (d', eff) \<Longrightarrow> \<exists>xs. corresponds sod d xs d' eff"
  using main_loop_simulates by (fastforce simp: daemon_simulates_def simulates_def corresponds_def)

lemma daemon_proc_inv: "daemon_inv sod d \<Longrightarrow> proc_inv sod (proc_of (rng d) (d_peers d))"
  by (auto simp: proc_inv_def proc_of_def in_set_conv_nth daemon_inv_nth(4) simp del: session_inv.simps)

text \<open>Two iterations for the witnesses: a packet is read, then the same packet again with a datagram.\<close>

definition demo_iteration :: "bool \<Rightarrow> bytes \<Rightarrow> iteration" where
  "demo_iteration udp_in inp =
     \<lparr>it_running = True, it_poll = PollReady True udp_in, it_packet = Ret demo_packet, it_tun_sent = Ret 48, it_tun_now = 5,
      it_datagram = Ret (inp, demo_addr 2), it_udp_sent = Ret 0, it_written = Ret 0, it_udp_now = 6,
      it_timers = (\<lambda>_. \<lparr>ans_keepalive = Ret 0, ans_init = Ret 0, ans_resolve = (\<lambda>_. (0, None))\<rparr>), it_now = 7\<rparr>"

lemma main_loop_Cons:
  "it_running it \<Longrightarrow> loop_body sod d it = (d1, eff1, True) \<Longrightarrow> main_loop sod d1 its = (d2, eff2) \<Longrightarrow>
     main_loop sod d (it # its) = (d2, eff1 @ eff2)"
  by simp

lemma demo_run:
  obtains d d' eff m rest where "daemon_inv demo_sodium d" "length (d_peers d) = 1"
    "main_loop demo_sodium d [demo_iteration False [], demo_iteration True [3, 1, 2]] = (d', eff)"
    "emitted eff = Datagram m # rest" "tx_counter (sess (d_peers d ! 0)) = 0"
    "handshake_counter (sess (d_peers d ! 0)) = 1001"
proof -
  obtain a b where t: "daemon_inv demo_sodium (demo_daemon CRYPTO_ROLE_INITIATOR 1 2 True a)"
    "daemon_inv demo_sodium (demo_daemon CRYPTO_ROLE_RESPONDER 2 1 True b)"
    "linked (snd a) (snd b)" "replay_inv (snd b) {}" "tx_counter (snd a) = 0" "handshake_counter (snd a) = 1001"
    by (rule demo_tunnel_counters)
  define d where "d = demo_daemon CRYPTO_ROLE_INITIATOR 1 2 True a"
  have d: "daemon_inv demo_sodium d" "length (d_peers d) = 1" "sess (d_peers d ! 0) = snd a"
    "state (snd a) = SESSION_STATE_ESTABLISHED"
    "route_packet (d_cfg d) (take MAX_PACKET_SIZE demo_packet) = int 0"
    using t(1,3) demo_route(2) [of a] by (simp_all add: d_def demo_daemon_defs linked_def)
  obtain d1 eff1 where h: "handle_tun demo_sodium d (Ret demo_packet) (Ret 48) 5 = (d1, eff1)" by fastforce
  obtain m l where m: "eff1 = [Net (fst (udp_send (Ret 48) (d_udp d) m (addr (d_peers d ! 0)))), Logged l]"
    by (rule handle_tun_sends [OF demo_sodium_ok d(1,5) _ _ h]) (use d(2-4) in simp_all)
  obtain d2 eff2 where body: "loop_body demo_sodium d (demo_iteration False []) = (d2, eff1 @ eff2, True)"
    using h by (cases "handle_timers demo_sodium d1 (it_timers (demo_iteration False [])) 7")
      (auto simp: loop_body_def demo_iteration_def)
  obtain d' eff' where rest: "main_loop demo_sodium d2 [demo_iteration True [3, 1, 2]] = (d', eff')" by fastforce
  have run: "it_running (demo_iteration False [])" by (simp add: demo_iteration_def)
  have "main_loop demo_sodium d [demo_iteration False [], demo_iteration True [3, 1, 2]] = (d', (eff1 @ eff2) @ eff')"
    by (rule main_loop_Cons [OF run body rest])
  from that [OF d(1,2) this] m t(5,6) d(3) show thesis by simp
qed

section \<open>Properties\<close>

text \<open>C4. The daemon is a faithful driver of its sessions: every run of the loop corresponds to a run of
  the abstract machine that holds nothing but the sessions and the key generator and whose steps are
  calls of the session interface. The sessions and the number of draws at the end are those of the
  abstract run, and the datagrams sent and packets written are, in order, exactly what its calls
  returned: nothing is sent or written that no call produced, nothing is lost before the system
  call, nothing is duplicated or reordered.\<close>

theorem daemon_implements_process:
  assumes "peers_match d" and "main_loop sod d its = (d', eff)"
  shows "\<exists>xs. proc_run sod (proc_of (rng d) (d_peers d)) xs = proc_of (rng d') (d_peers d') \<and>
    proc_outputs sod (proc_of (rng d) (d_peers d)) xs = emitted eff"
  using main_loop_corresponds [OF assms] by (simp add: corresponds_def)

theorem daemon_implements_process_witness:
  "\<exists>d d' eff m rest xs.
     main_loop demo_sodium d [demo_iteration False [], demo_iteration True [3, 1, 2]] = (d', eff) \<and>
     proc_run demo_sodium (proc_of (rng d) (d_peers d)) xs = proc_of (rng d') (d_peers d') \<and>
     proc_outputs demo_sodium (proc_of (rng d) (d_peers d)) xs = Datagram m # rest"
proof -
  obtain d d' eff m rest where r: "daemon_inv demo_sodium d" "length (d_peers d) = 1"
    "main_loop demo_sodium d [demo_iteration False [], demo_iteration True [3, 1, 2]] = (d', eff)"
    "emitted eff = Datagram m # rest" "tx_counter (sess (d_peers d ! 0)) = 0"
    "handshake_counter (sess (d_peers d ! 0)) = 1001"
    by (rule demo_run)
  from daemon_implements_process [OF daemon_inv_match [OF r(1)] r(3), unfolded r(4)] r(3) show ?thesis by blast
qed

text \<open>C2. No nonce is ever used twice under one key in the life of the daemon: over any run of the loop in
  which no counter runs out, two data messages sealed for the same peer that carry the same counter
  are sealed under keys from different ephemeral draws, and two handshake messages for the same
  peer, both under its static key, carry different counters. Retransmissions, failed sends,
  keepalives, rekeying and the other peers' handshakes in between make no difference.\<close>

theorem daemon_nonces_unique:
  assumes "sodium_ok sod" and "daemon_inv sod d" and "main_loop sod d its = (d', eff)"
    and "\<forall>p \<in> set (d_peers d). unat (tx_counter (sess p)) + length (emitted eff) < 2 ^ 64 \<and>
      unat (handshake_counter (sess p)) + length (emitted eff) < 2 ^ 64 - 1"
  shows "(\<exists>xs. corresponds sod d xs d' eff) \<and>
    (\<forall>xs. corresponds sod d xs d' eff \<longrightarrow> nonces_unique sod (proc_of (rng d) (d_peers d)) xs)"
proof -
  have "nonces_unique sod (proc_of (rng d) (d_peers d)) xs" if "corresponds sod d xs d' eff" for xs
    using that assms(4)
    by (intro proc_nonces_unique [OF assms(1) daemon_proc_inv [OF assms(2)]]) (auto simp: corresponds_def proc_of_def)
  with main_loop_corresponds [OF daemon_inv_match [OF assms(2)] assms(3)] show ?thesis by blast
qed

theorem daemon_nonces_unique_witness:
  "\<exists>d d' eff m rest xs.
     main_loop demo_sodium d [demo_iteration False [], demo_iteration True [3, 1, 2]] = (d', eff) \<and>
     emitted eff = Datagram m # rest \<and> corresponds demo_sodium d xs d' eff \<and>
     nonces_unique demo_sodium (proc_of (rng d) (d_peers d)) xs"
proof -
  obtain d d' eff m rest where r: "daemon_inv demo_sodium d" "length (d_peers d) = 1"
    "main_loop demo_sodium d [demo_iteration False [], demo_iteration True [3, 1, 2]] = (d', eff)"
    "emitted eff = Datagram m # rest" "tx_counter (sess (d_peers d ! 0)) = 0"
    "handshake_counter (sess (d_peers d ! 0)) = 1001"
    by (rule demo_run)
  have "length (emitted eff) \<le> 8" using main_loop_emits [OF daemon_inv_match [OF r(1)] r(3)] r(2) by simp
  moreover have "set (d_peers d) = {d_peers d ! 0}" using r(2) by (auto simp: length_Suc_conv)
  ultimately have "\<forall>p \<in> set (d_peers d). unat (tx_counter (sess p)) + length (emitted eff) < 2 ^ 64 \<and>
      unat (handshake_counter (sess p)) + length (emitted eff) < 2 ^ 64 - 1"
    using r(5,6) by simp
  from daemon_nonces_unique [OF demo_sodium_ok r(1,3) this] r(3,4) show ?thesis by blast
qed



end
