(* ===== verification/Daemon_Logging.thy ===== *)
theory Daemon_Logging
  imports Daemon_Freshness Daemon_Lifecycle
begin

text \<open>
  What the daemon's log says (the log calls of \<open>src/src/main.c\<close> through \<open>src/src/log.c\<close>): it does not
  depend on the contents of the packets that enter the tunnel, and no line is ever cut short.
\<close>

section \<open>The messages of a run\<close>

fun logged :: "effect list \<Rightarrow> message list" where
  "logged [] = []"
| "logged (Net _ # es) = logged es"
| "logged (Logged m # es) = m # logged es"
| "logged (ConfigRejected _ _ # es) = logged es"

lemma logged_append [simp]: "logged (xs @ ys) = logged xs @ logged ys"
  by (induction xs rule: logged.induct) simp_all

text \<open>An effect as somebody sees it who cannot look into sealed datagrams.\<close>

fun outline :: "effect \<Rightarrow> effect" where
  "outline (Net (UdpSend fd dest m)) = Net (UdpSend fd dest (replicate (length m) 0))"
| "outline e = e"

lemma logged_outline: "logged (map outline eff) = logged eff"
proof (induction eff rule: logged.induct)
  case (2 e es)
  then show ?case by (cases e) simp_all
qed simp_all

section \<open>Payloads\<close>

text \<open>Packets of the same length with the same route, and iterations that differ only in such packets.\<close>

definition alike :: "config \<Rightarrow> bytes sysret \<Rightarrow> bytes sysret \<Rightarrow> bool" where
  "alike c x y \<longleftrightarrow>
     (case (x, y) of
        (Ret p, Ret q) \<Rightarrow> length p = length q \<and>
          route_packet c (take MAX_PACKET_SIZE p) = route_packet c (take MAX_PACKET_SIZE q)
      | _ \<Rightarrow> x = y)"

definition iteration_alike :: "config \<Rightarrow> iteration \<Rightarrow> iteration \<Rightarrow> bool" where
  "iteration_alike c it it' \<longleftrightarrow> alike c (it_packet it) (it_packet it') \<and> it' = it\<lparr>it_packet := it_packet it'\<rparr>"

lemma seal_data_alike:
  assumes ok: "sodium_ok sod" and len: "length p = length q"
  shows "fst (session_seal_data sod s p n) = fst (session_seal_data sod s q n) \<and>
    map_option length (snd (session_seal_data sod s p n)) = map_option length (snd (session_seal_data sod s q n))"
proof -
  note aead = sodium_okD(1) [OF ok]
  have none: "crypto_seal sod k c p l = None \<longleftrightarrow> crypto_seal sod k c q l = None" for k c l
    using crypto_seal_None [OF aead] len by simp
  show ?thesis
  proof (cases "crypto_seal sod (tx (data_keys s)) (tx_counter s) p (n - 1)")
    case None
    moreover from this none have "crypto_seal sod (tx (data_keys s)) (tx_counter s) q (n - 1) = None" by blast
    ultimately show ?thesis using len by (simp add: session_seal_data_def)
  next
    case (Some a)
    with none obtain b where b: "crypto_seal sod (tx (data_keys s)) (tx_counter s) q (n - 1) = Some b"
      by (metis option.exhaust option.distinct(1))
    from crypto_seal_length(1) [OF aead Some] crypto_seal_length(1) [OF aead b] len have "length a = length b" by simp
    with Some b len show ?thesis by (simp add: session_seal_data_def)
  qed
qed

lemma handle_tun_alike:
  assumes ok: "sodium_ok sod" and like: "alike (d_cfg d) x y"
    and x: "handle_tun sod d x sent now = (d1, eff1)" and y: "handle_tun sod d y sent now = (d2, eff2)"
  shows "d1 = d2 \<and> map outline eff1 = map outline eff2"
proof (cases "\<exists>p q. x = Ret p \<and> y = Ret q")
  case False
  with like have "x = y" by (auto simp: alike_def split: sysret.splits)
  with x y show ?thesis by simp
next
  case True
  then obtain p q where pq: "x = Ret p" "y = Ret q" by blast
  define p' q' where "p' = take MAX_PACKET_SIZE p" and "q' = take MAX_PACKET_SIZE q"
  have route: "route_packet (d_cfg d) p' = route_packet (d_cfg d) q'" and len: "length p' = length q'"
    using like by (simp_all add: alike_def pq p'_def q'_def)
  define s where "s = sess (d_peers d ! nat (route_packet (d_cfg d) q'))"
  obtain s1 m where m: "session_seal_data sod s p' SEALED_BUF_SIZE = (s1, m)" by fastforce
  obtain s2 m' where m': "session_seal_data sod s q' SEALED_BUF_SIZE = (s2, m')" by fastforce
  have same: "s2 = s1" "map_option length m = map_option length m'"
    using seal_data_alike [OF ok len, of s SEALED_BUF_SIZE] m m' by simp_all
  then have "m = None \<and> m' = None \<or> (\<exists>a b. m = Some a \<and> m' = Some b \<and> length a = length b)"
    by (cases m; cases m') simp_all
  then show ?thesis
    using x y m [unfolded s_def] m' [unfolded s_def] same(1) route len
    by (auto simp: pq handle_tun_def tun_read_def udp_send_def Let_def simp flip: p'_def q'_def
        split: if_splits sysret.splits)
qed

lemma loop_body_alike:
  assumes ok: "sodium_ok sod" and like: "iteration_alike (d_cfg d) it it'"
    and x: "loop_body sod d it = (d1, eff1, b1)" and y: "loop_body sod d it' = (d2, eff2, b2)"
  shows "d1 = d2 \<and> map outline eff1 = map outline eff2 \<and> b1 = b2"
proof -
  obtain y' where it': "it' = it\<lparr>it_packet := y'\<rparr>" "alike (d_cfg d) (it_packet it) y'"
    using like by (auto simp: iteration_alike_def)
  show ?thesis
  proof (cases "it_poll it")
    case (PollError e)
    with x y it' show ?thesis by (auto simp: loop_body_def split: if_splits)
  next
    case (PollReady tun_in udp_in)
    show ?thesis
    proof (cases tun_in)
      case False
      with x y it' PollReady show ?thesis by (cases udp_in) (auto simp: loop_body_def)
    next
      case True
      obtain d3 eff3 where h: "handle_tun sod d (it_packet it) (it_tun_sent it) (it_tun_now it) = (d3, eff3)" by fastforce
      obtain d4 eff4 where h': "handle_tun sod d y' (it_tun_sent it) (it_tun_now it) = (d4, eff4)" by fastforce
      from handle_tun_alike [OF ok it'(2) h h'] have "d4 = d3" "map outline eff3 = map outline eff4" by simp_all
      with x y it' PollReady True h h' show ?thesis by (cases udp_in) (auto simp: loop_body_def split: prod.splits)
    qed
  qed
qed

lemma main_loop_alike:
  assumes "sodium_ok sod" and "peers_match d" and "list_all2 (iteration_alike (d_cfg d)) its its'"
    and "main_loop sod d its = (d1, eff1)" and "main_loop sod d its' = (d2, eff2)"
  shows "d1 = d2 \<and> map outline eff1 = map outline eff2"
  using assms(2-)
proof (induction its arbitrary: its' d d1 d2 eff1 eff2)
  case (Cons it its)
  then obtain jt jts where its': "its' = jt # jts" "iteration_alike (d_cfg d) it jt"
    "list_all2 (iteration_alike (d_cfg d)) its jts"
    by (auto simp: list_all2_Cons1)
  have run: "it_running jt = it_running it" using its'(2) by (metis iteration_alike_def iteration.select_convs(1) iteration.surjective iteration.update_convs(3))
  obtain e f b where body: "loop_body sod d it = (e, f, b)" by (cases "loop_body sod d it") auto
  obtain e' f' b' where body': "loop_body sod d jt = (e', f', b')" by (cases "loop_body sod d jt") auto
  note like = loop_body_alike [OF assms(1) its'(2) body body']
  note sim = loop_body_simulates [OF Cons.prems(1) body]
  have cfg: "d_cfg e = d_cfg d" using sim by (simp add: daemon_simulates_def)
  obtain g h where rest: "main_loop sod e its = (g, h)" by fastforce
  obtain g' h' where rest': "main_loop sod e jts = (g', h')" by fastforce
  have "g = g' \<and> map outline h = map outline h'"
    by (rule Cons.IH [OF daemon_simulates_match [OF sim Cons.prems(1)] _ _ rest']) (use its'(3) cfg rest in simp_all)
  with Cons.prems(3,4) its'(1) run body body' like rest rest' show ?case by (auto split: if_splits bool.splits)
qed simp

section \<open>Lengths\<close>

definition all_short :: "effect list \<Rightarrow> bool" where
  "all_short eff \<longleftrightarrow> (\<forall>m \<in> set (logged eff). message_short m)"

lemma all_short_simps [simp]:
  "all_short []" "all_short (Net e # es) \<longleftrightarrow> all_short es" "all_short (Logged m # es) \<longleftrightarrow> message_short m \<and> all_short es"
  "all_short (ConfigRejected path err # es) \<longleftrightarrow> all_short es"
  "all_short (xs @ ys) \<longleftrightarrow> all_short xs \<and> all_short ys"
  by (auto simp: all_short_def)

text \<open>The hosts of the peers fit their buffers.\<close>

definition hosts_fit :: "peer_session list \<Rightarrow> bool" where
  "hosts_fit ps \<longleftrightarrow> (\<forall>p \<in> set ps. length (host (ps_config p)) < 256)"

lemma hosts_fit_nth: "hosts_fit ps \<Longrightarrow> i < length ps \<Longrightarrow> length (host (ps_config (ps ! i))) < 256"
  by (simp add: hosts_fit_def)

lemma hosts_fit_cong: "map ps_config ps' = map ps_config ps \<Longrightarrow> hosts_fit ps' \<longleftrightarrow> hosts_fit ps"
proof -
  assume "map ps_config ps' = map ps_config ps"
  then have "ps_config ` set ps' = ps_config ` set ps" by (metis set_map)
  then show ?thesis unfolding hosts_fit_def by (metis (no_types, lifting) image_iff)
qed

lemma hosts_fit_simulates: "daemon_simulates sod d em d' \<Longrightarrow> hosts_fit (d_peers d') \<longleftrightarrow> hosts_fit (d_peers d)"
  by (rule hosts_fit_cong) (simp add: daemon_simulates_def simulates_def)

lemma handle_tun_short:
  assumes "peers_match d" and "hosts_fit (d_peers d)" and ok: "sodium_ok sod"
    and "handle_tun sod d answer sent now = (d', eff)"
  shows "all_short eff"
proof -
  have host: "length (host (ps_config (d_peers d ! nat (route_packet (d_cfg d) p)))) < 256"
    if "\<not> route_packet (d_cfg d) p < 0" for p
    using hosts_fit_nth [OF assms(2) route_in_range [OF assms(1) that]] .
  have size: "length p < 65536" if "tun_read answer MAX_PACKET_SIZE = Ret p" for p
    using that by (auto simp: tun_read_def const_defs split: sysret.splits)
  have sealed: "length m < 65536" if "session_seal_data sod s p SEALED_BUF_SIZE = (s', Some m)" for s p s' m
    using session_seal_data_length [OF ok that] by (simp add: const_defs)
  show ?thesis
    using assms(4) host size sealed
    by (auto simp: handle_tun_def udp_send_def Let_def message_short_def
        split: sysret.splits if_splits prod.splits option.splits)
qed

lemma handle_unknown_init_short:
  assumes "hosts_fit (d_peers d)" and "handle_unknown_init sod d inp src sent now = (d', eff)"
  shows "all_short eff"
proof -
  obtain r ps res where f: "find_responder_for_init sod (rng d) (d_peers d) inp SESSION_HANDSHAKE_MSG_LEN = (r, ps, res)"
    by (cases "find_responder_for_init sod (rng d) (d_peers d) inp SESSION_HANDSHAKE_MSG_LEN") auto
  have "length (host (ps_config (ps ! i))) < 256" if "res = Some (i, m)" for i m
  proof -
    have i: "i < length (d_peers d)" "ps_config (ps ! i) = ps_config (d_peers d ! i)"
      using find_responder_result [OF f] that by (blast, fastforce)
    then show ?thesis using hosts_fit_nth [OF assms(1)] by simp
  qed
  with assms(2) f show ?thesis
    by (auto simp: handle_unknown_init_def udp_send_def Let_def message_short_def split: sysret.splits option.splits)
qed

lemma handle_known_short:
  assumes i: "i < length (d_peers d)" and "hosts_fit (d_peers d)" and "length inp < 65536" and ok: "sodium_ok sod"
    and "handle_known sod d i inp sent written now = (d', eff)"
  shows "all_short eff"
proof -
  have host: "length (host (ps_config (d_peers d ! i))) < 256" by (rule hosts_fit_nth [OF assms(2,1)])
  have opened: "length p < 65536" if "session_open_data sod s inp MAX_PACKET_SIZE = (s', Opened p)" for s s' p
    using that
  proof (cases rule: session_open_data_cases)
    case (opened body out counter b)
    then show ?thesis
      using crypto_open_length(2) [OF sodium_okD(1) [OF ok] opened(3)] by (auto simp: const_defs split: if_splits)
  qed simp
  show ?thesis
    using assms(5) host opened assms(3)
    by (auto simp: handle_known_def udp_send_def tun_write_def Let_def message_short_def
        split: if_splits prod.splits option.splits bool.splits sysret.splits open_result.splits)
qed

lemma handle_udp_short:
  assumes "hosts_fit (d_peers d)" and "sodium_ok sod" and "handle_udp sod d answer sent written now = (d', eff)"
  shows "all_short eff"
proof (cases answer)
  case (Fail e)
  with assms(3) show ?thesis by (auto simp: handle_udp_def udp_recv_def message_short_def split: if_splits)
next
  case (Ret x)
  obtain datagram src where x: "x = (datagram, src)" by fastforce
  define inp where "inp = take SEALED_BUF_SIZE datagram"
  have inp: "length inp < 65536" by (simp add: inp_def const_defs)
  show ?thesis
  proof (cases "find_peer_by_addr (d_peers d) src")
    case None
    with assms(3) inp show ?thesis
      by (auto simp: Ret x handle_udp_def udp_recv_def message_short_def simp flip: inp_def
          intro: handle_unknown_init_short [OF assms(1)] split: if_splits)
  next
    case (Some i)
    with find_peer_by_addr_Some [OF Some] assms(3) inp show ?thesis
      by (auto simp: Ret x handle_udp_def udp_recv_def message_short_def simp flip: inp_def
          intro: handle_known_short [OF _ assms(1) _ assms(2)] split: if_splits)
  qed
qed

lemma initiate_handshake_short:
  assumes "length (host (ps_config p)) < 256" and "initiate_handshake sod res sent udp n r p now = (r', p', eff)"
  shows "all_short eff"
  using assms
  by (auto simp: initiate_handshake_def udp_send_def Let_def message_short_def
      split: if_splits option.splits prod.splits sysret.splits)

lemma peer_timers_short:
  assumes "length (host (ps_config p)) < 256" and "peer_timers sod ans udp now r p = (r', p', eff)"
  shows "all_short eff"
proof -
  obtain p1 eff1 where k: "keepalive_timer sod (ans_keepalive ans) udp now p = (p1, eff1)" by fastforce
  obtain r2 p2 eff2 where h: "handshake_timer sod ans udp now r p1 = (r2, p2, eff2)"
    by (cases "handshake_timer sod ans udp now r p1") auto
  have "all_short eff1"
    using k assms(1)
    by (auto simp: keepalive_timer_def udp_send_def message_short_def split: if_splits option.splits prod.splits sysret.splits)
  moreover have "all_short eff2"
    using h assms(1) keepalive_timer_frame(2) [OF k]
    by (auto simp: handshake_timer_def message_short_def dest: initiate_handshake_short [rotated] split: if_splits prod.splits)
  ultimately show ?thesis using assms(2) k h by (auto simp: peer_timers_def)
qed

lemma all_timers_short:
  "hosts_fit ps \<Longrightarrow> all_timers sod ans udp now i r ps = (r', ps', eff) \<Longrightarrow> all_short eff"
proof (induction ps arbitrary: i r ps' eff)
  case (Cons p ps)
  then show ?case
    by (auto simp: hosts_fit_def dest: peer_timers_short [rotated] split: prod.splits)
qed simp

lemma handle_timers_short:
  assumes "hosts_fit (d_peers d)" and "handle_timers sod d ans now = (d', eff)"
  shows "all_short eff"
proof -
  obtain r ps eff1 where t: "all_timers sod ans (d_udp d) now 0 (rng d) (d_peers d) = (r, ps, eff1)"
    by (cases "all_timers sod ans (d_udp d) now 0 (rng d) (d_peers d)") auto
  have "hosts_fit ps"
    using hosts_fit_cong [of ps "d_peers d"] all_timers_simulates [OF t] assms(1) by (simp add: simulates_def)
  then have "all_short (log_stats ps)"
    by (induction ps) (auto simp: log_stats_def stats_message_def message_short_def hosts_fit_def)
  with assms t all_timers_short [OF assms(1) t] show ?thesis
    by (auto simp: handle_timers_def Let_def split: if_splits)
qed

lemma loop_body_short:
  assumes ok: "sodium_ok sod" and match: "peers_match d" and hosts: "hosts_fit (d_peers d)"
    and body: "loop_body sod d it = (d', eff, b)"
  shows "all_short eff"
proof (cases "it_poll it")
  case (PollError e)
  with body show ?thesis by (auto simp: loop_body_def message_short_def split: if_splits)
next
  case (PollReady tun_in udp_in)
  obtain d1 eff1 where h1: "(if tun_in then handle_tun sod d (it_packet it) (it_tun_sent it) (it_tun_now it)
      else (d, [])) = (d1, eff1)" by fastforce
  obtain d2 eff2 where h2: "(if udp_in then handle_udp sod d1 (it_datagram it) (it_udp_sent it) (it_written it) (it_udp_now it)
      else (d1, [])) = (d2, eff2)" by fastforce
  obtain d3 eff3 where h3: "handle_timers sod d2 (it_timers it) (it_now it) = (d3, eff3)" by fastforce
  have "daemon_simulates sod d (emitted eff1) d1" "daemon_simulates sod d1 (emitted eff2) d2"
    using h1 h2 handle_tun_simulates [OF match] handle_udp_simulates by (auto split: if_splits)
  then have "hosts_fit (d_peers d1)" "hosts_fit (d_peers d2)" using hosts hosts_fit_simulates by blast+
  then have "all_short eff1" "all_short eff2" "all_short eff3"
    using h1 h2 handle_tun_short [OF match hosts ok] handle_udp_short [OF _ ok] handle_timers_short [OF _ h3]
    by (auto split: if_splits)
  moreover have "eff = eff1 @ eff2 @ eff3" using body PollReady h1 h2 h3 by (auto simp: loop_body_def)
  ultimately show ?thesis by simp
qed

lemma main_loop_short:
  assumes "sodium_ok sod" and "peers_match d" and "hosts_fit (d_peers d)" and "main_loop sod d its = (d', eff)"
  shows "all_short eff"
  using assms(2-)
proof (induction its arbitrary: d eff)
  case (Cons it its)
  obtain d1 eff1 b where body: "loop_body sod d it = (d1, eff1, b)"
    by (cases "loop_body sod d it") auto
  note sim = loop_body_simulates [OF Cons.prems(1) body]
  obtain d2 eff2 where rest: "main_loop sod d1 its = (d2, eff2)" by fastforce
  have "all_short eff1" by (rule loop_body_short [OF assms(1) Cons.prems(1,2) body])
  moreover have "all_short eff2" if "d2 = d'"
    by (rule Cons.IH [OF daemon_simulates_match [OF sim Cons.prems(1)] _ rest [unfolded that]])
      (use hosts_fit_simulates [OF sim] Cons.prems(2) in simp)
  ultimately show ?case using Cons.prems(3) body rest by (auto split: if_splits bool.splits)
qed simp

lemma start_peers_short:
  "list_all peer_fits cps \<Longrightarrow> start_peers sod ans pk sk udp i r cps = (r', ps, eff, ok) \<Longrightarrow> all_short eff"
proof (induction cps arbitrary: i r r' ps eff ok)
  case (Cons cp cps)
  have host: "length (host cp) < 256" using Cons.prems(1) by (simp add: peer_fits_def const_defs)
  show ?case
  proof (cases "session_init sod r (st_wall_clock ans i) (cfg_role cp) pk sk (public_key cp)")
    case None
    with Cons.prems(2) host show ?thesis by (auto simp: message_short_def)
  next
    case (Some st)
    obtain r1 s where st: "st = (r1, s)" by fastforce
    let ?p = "(zero_peer_session cp)\<lparr>sess := s, last_rx_activity_ms := st_now ans i\<rparr>"
    obtain r2 p2 eff1 where go: "(if cfg_role cp = CRYPTO_ROLE_INITIATOR
        then initiate_handshake sod (st_resolve ans i) (st_sent ans i) udp SEALED_BUF_SIZE r1 ?p (st_init_now ans i)
        else (r1, ?p, [Logged (AwaitingInit (host cp))])) = (r2, p2, eff1)"
      by (metis prod_cases3)
    obtain r3 ps3 eff2 ok' where rest: "start_peers sod ans pk sk udp (Suc i) r2 cps = (r3, ps3, eff2, ok')"
      by (metis prod_cases4)
    have "all_short eff1"
      using go host initiate_handshake_short [of ?p] by (auto simp: zero_peer_session_def message_short_def split: if_splits)
    moreover have "all_short eff2" using Cons.IH [OF _ rest] Cons.prems(1) by simp
    ultimately show ?thesis using Cons.prems(2) Some st go rest by auto
  qed
qed simp

lemma dev_name_short: "tun_open io k name = (k', tun, rc) \<Longrightarrow> length (dev_name tun) < 256"
  by (auto simp: tun_open_def Let_def const_defs split: sysret.splits if_splits)

lemma daemon_start_short:
  assumes "daemon_start sod ans k = (k', eff, res)"
  shows "all_short eff \<and> (\<forall>d. res = Running d \<longrightarrow> config_fits (d_cfg d))"
proof (cases "config_load sod (st_files ans (config_path (st_env ans)))")
  case (Inl e)
  with assms show ?thesis by (auto simp: daemon_start_def message_short_def split: if_splits)
next
  case (Inr c)
  have fits: "config_fits c" using config_load_valid [OF Inr] by simp
  then have names: "length (tun_name c) < 256" "length (tun_address c) < 256" "length (tun_netmask c) < 256"
    "length (peers c) < 65536" "list_all peer_fits (peers c)"
    by (auto simp: config_fits_def const_defs)
  show ?thesis
    using assms Inr fits names dev_name_short start_peers_short [OF names(5)]
    by (auto simp: daemon_start_def Let_def message_short_def split: if_splits prod.splits)
qed

lemma start_peers_failed:
  "start_peers sod ans pk sk udp i r cps = (r', ps, eff, False) \<Longrightarrow> eff \<noteq> [] \<and> (\<exists>h. last eff = Logged (SessionInitFailed h))"
proof (induction cps arbitrary: i r r' ps eff)
  case (Cons cp cps)
  then show ?case by (fastforce simp: Let_def split: option.splits prod.splits)
qed simp

section \<open>Properties\<close>

text \<open>C12. Neither the log nor the state of the daemon depends on what is inside the packets it tunnels: take
  any run and replace every packet read from the interface by another one of the same length with
  the same route. The daemon ends in the same state; it sends datagrams of the same lengths to the
  same destinations at the same points, differing only in their sealed contents; and the lines it
  logs, at whatever level, format and time, are the same, byte for byte.\<close>

theorem log_hides_payloads:
  assumes "sodium_ok sod" and "daemon_inv sod d" and "list_all2 (iteration_alike (d_cfg d)) its its'"
    and "main_loop sod d its = (d1, eff1)" and "main_loop sod d its' = (d2, eff2)"
  shows "d1 = d2 \<and> map outline eff1 = map outline eff2 \<and>
    write_log strerror env (cfg_name (d_cfg d)) st (zip clock (logged eff1)) =
      write_log strerror env (cfg_name (d_cfg d)) st (zip clock (logged eff2))"
proof -
  note like = main_loop_alike [OF assms(1) daemon_inv_match [OF assms(2)] assms(3-5)]
  then have "logged eff1 = logged eff2" by (metis logged_outline)
  with like show ?thesis by simp
qed

definition demo_payload :: bytes where
  "demo_payload = 0x45 # replicate 15 0 @ [10, 0, 0, 2, 7, 8, 9]"

theorem log_hides_payloads_witness:
  "\<exists>d d' eff eff' m rest. demo_payload \<noteq> demo_packet \<and>
     main_loop demo_sodium d [demo_iteration False [], demo_iteration True [3, 1, 2]] = (d', eff) \<and>
     main_loop demo_sodium d [(demo_iteration False [])\<lparr>it_packet := Ret demo_payload\<rparr>, demo_iteration True [3, 1, 2]] = (d', eff') \<and>
     emitted eff = Datagram m # rest \<and>
     write_log (\<lambda>_. []) (\<lambda>_. None) (cfg_name (d_cfg d)) log_start (zip [0, 1, 2, 3] (logged eff)) =
       write_log (\<lambda>_. []) (\<lambda>_. None) (cfg_name (d_cfg d)) log_start (zip [0, 1, 2, 3] (logged eff'))"
proof -
  obtain d d' eff m rest where r: "daemon_inv demo_sodium d" "length (d_peers d) = 1"
    "main_loop demo_sodium d [demo_iteration False [], demo_iteration True [3, 1, 2]] = (d', eff)"
    "emitted eff = Datagram m # rest" "tx_counter (sess (d_peers d ! 0)) = 0"
    "handshake_counter (sess (d_peers d ! 0)) = 1001"
    by (rule demo_run)
  obtain d2 eff' where r': "main_loop demo_sodium d
      [(demo_iteration False [])\<lparr>it_packet := Ret demo_payload\<rparr>, demo_iteration True [3, 1, 2]] = (d2, eff')"
    by fastforce
  have "routing_parse_ipv4_dest (take MAX_PACKET_SIZE demo_payload) = routing_parse_ipv4_dest (take MAX_PACKET_SIZE demo_packet)"
    by (simp add: demo_packet_def demo_payload_def const_defs routing_parse_ipv4_dest_def)
  then have "alike c (Ret demo_packet) (Ret demo_payload)" "alike c (Ret demo_packet) (Ret demo_packet)" for c
    by (simp_all add: alike_def route_packet_def demo_packet_def demo_payload_def)
  then have "list_all2 (iteration_alike (d_cfg d)) [demo_iteration False [], demo_iteration True [3, 1, 2]]
      [(demo_iteration False [])\<lparr>it_packet := Ret demo_payload\<rparr>, demo_iteration True [3, 1, 2]]"
    by (simp add: iteration_alike_def demo_iteration_def)
  from log_hides_payloads [OF demo_sodium_ok r(1) this r(3) r', of "\<lambda>_. []" "\<lambda>_. None" log_start "[0, 1, 2, 3]"]
  have same: "d' = d2" "write_log (\<lambda>_. []) (\<lambda>_. None) (cfg_name (d_cfg d)) log_start (zip [0, 1, 2, 3] (logged eff)) =
       write_log (\<lambda>_. []) (\<lambda>_. None) (cfg_name (d_cfg d)) log_start (zip [0, 1, 2, 3] (logged eff'))"
    by blast+
  have "demo_payload \<noteq> demo_packet" by (simp add: demo_packet_def demo_payload_def)
  with r(3,4) r' [folded same(1)] same(2) show ?thesis by blast
qed

text \<open>C29. No log line is ever cut short: from startup to shutdown, whatever happens, every message the
  daemon logs fits the buffer it is formatted in, since the host names, the interface name and the
  addresses it mentions have passed the loader's length checks and the sizes are bounded by the packet
  buffers (the texts of \<open>strerror\<close> being shorter than 256 characters).\<close>

theorem log_messages_fit:
  assumes "sodium_ok sod" and "daemon_main sod ans its k = (k', eff, code)" and "\<forall>e. length (strerror e) < 256"
  shows "\<forall>m \<in> set (logged eff). length (message_text strerror m) < LOG_MESSAGE_BYTES"
proof -
  obtain k1 eff1 res where start: "daemon_start sod ans k = (k1, eff1, res)"
    by (cases "daemon_start sod ans k") auto
  have "all_short eff"
  proof (cases res)
    case (Exit c)
    with start assms(2) daemon_start_short [OF start] show ?thesis by (simp add: daemon_main_def)
  next
    case (Running d)
    obtain d' eff2 where l: "main_loop sod d its = (d', eff2)" by fastforce
    have match: "peers_match d" by (rule daemon_start_match [OF start [unfolded Running]])
    then have "set (peers (d_cfg d)) = ps_config ` set (d_peers d)" by (metis peers_match_def set_map)
    then have "hosts_fit (d_peers d) \<longleftrightarrow> (\<forall>cp \<in> set (peers (d_cfg d)). length (host cp) < 256)"
      by (simp add: hosts_fit_def)
    then have "hosts_fit (d_peers d)"
      using daemon_start_short [OF start] Running by (auto simp: config_fits_def list_all_iff peer_fits_def const_defs)
    with main_loop_short [OF assms(1) match _ l] start Running l assms(2) daemon_start_short [OF start] show ?thesis
      by (auto simp: daemon_main_def daemon_shutdown_def message_short_def split: prod.splits)
  qed
  moreover have "length (strerror e) \<le> 255" for e using assms(3) [rule_format, of e] by simp
  ultimately show ?thesis using message_text_length by (simp add: all_short_def)
qed

theorem log_messages_fit_witness:
  "\<exists>k eff code. daemon_main demo_sodium demo_start [demo_iteration True [1, 2, 3]] demo_kernel = (k, eff, code) \<and>
     ShuttingDown \<in> set (logged eff) \<and>
     (\<forall>m \<in> set (logged eff). length (message_text (\<lambda>_. ''Input/output error'') m) < LOG_MESSAGE_BYTES)"
proof -
  obtain k eff code where r: "daemon_main demo_sodium demo_start [demo_iteration True [1, 2, 3]] demo_kernel = (k, eff, code)"
    by (cases "daemon_main demo_sodium demo_start [demo_iteration True [1, 2, 3]] demo_kernel") auto
  obtain k1 eff1 d where d: "daemon_start demo_sodium demo_start demo_kernel = (k1, eff1, Running d)"
    "length (d_peers d) = 1" "d_cfg d = demo_config"
    by (rule demo_starts)
  have "ShuttingDown \<in> set (logged eff)"
    using r d(1) by (auto simp: daemon_main_def daemon_shutdown_def simp del: main_loop.simps split: prod.splits)
  with r log_messages_fit [OF demo_sodium_ok r, of "\<lambda>_. ''Input/output error''"] show ?thesis by auto
qed

text \<open>C35. A start that fails says why: whenever startup gives up, at whichever stage, the exit code is 1 and
  the last thing done is a complaint on the error stream, whatever \<open>LOG_LEVEL\<close> and \<open>LOG_FORMAT\<close> are: a
  configuration file that cannot be loaded is reported by the loader itself, with the path and its
  error, before anything has been opened; everything else as an error of the log.\<close>

theorem failed_start_is_reported:
  assumes "daemon_start sod ans k = (k', eff, Exit code)"
  shows "code = 1 \<and> eff \<noteq> [] \<and>
    (case last eff of
       Net e \<Rightarrow> False
     | ConfigRejected path e \<Rightarrow>
         path = config_path (st_env ans) \<and> config_load sod (st_files ans path) = Inl e \<and> k' = k
     | Logged m \<Rightarrow>
         (\<exists>line. snd (log_at env st secs (message_level m) (message_component name m) (message_text strerror m)) =
            Some (Stderr, line)))"
proof -
  have stderr: "\<exists>line. snd (log_at env st secs LOG_LEVEL_ERROR cmp msg) = Some (Stderr, line)" for cmp msg
  proof -
    have "l \<le> LOG_LEVEL_ERROR" for l by (cases l) (simp_all add: less_eq_log_level_def)
    then show ?thesis
      by (auto simp: log_at_def log_level_enabled_def emit_def Let_def less_eq_log_level_def)
  qed
  have "code = 1 \<and> eff \<noteq> [] \<and> ((\<exists>m. last eff = Logged m \<and> message_level m = LOG_LEVEL_ERROR) \<or>
      (\<exists>e. last eff = ConfigRejected (config_path (st_env ans)) e \<and>
         config_load sod (st_files ans (config_path (st_env ans))) = Inl e \<and> k' = k))"
    using assms
    by (auto simp: daemon_start_def Let_def dest!: start_peers_failed split: if_splits sum.splits prod.splits)
  with stderr show ?thesis by auto
qed

theorem failed_start_is_reported_witness:
  "\<exists>k eff. daemon_start demo_sodium (demo_start\<lparr>st_tun_open := \<lparr>ans_open = Fail 13, ans_tunsetiff = (\<lambda>n f. Ret n),
         ans_open_close = 0\<rparr>\<rparr>) demo_kernel = (k, eff, Exit 1) \<and> last eff = Logged (TunOpenFailed ''edgar0'' 13) \<and>
     (\<exists>line. snd (log_at (\<lambda>_. Some ''error'') log_start 0 LOG_LEVEL_ERROR ''peer1''
        (message_text (\<lambda>_. ''Permission denied'') (TunOpenFailed ''edgar0'' 13))) = Some (Stderr, line))"
proof -
  let ?ans = "demo_start\<lparr>st_tun_open := \<lparr>ans_open = Fail 13, ans_tunsetiff = (\<lambda>n f. Ret n), ans_open_close = 0\<rparr>\<rparr>"
  have c: "config_load demo_sodium (st_files ?ans (config_path (st_env ?ans))) = Inr demo_config"
    using config_load_printed [OF demo_base64_correct demo_base64_text demo_config_printable] by (simp add: demo_start_def)
  have s: "daemon_start demo_sodium ?ans demo_kernel =
      (sys_fail 13 demo_kernel, [Logged (TunOpenFailed ''edgar0'' 13)], Exit 1)"
    using c by (simp add: daemon_start_def crypto_init_def demo_sodium_def tun_open_def sys_fail_def demo_config_def)
  from failed_start_is_reported [OF s, of "\<lambda>_. Some ''error''" log_start 0 "''peer1''" "\<lambda>_. ''Permission denied''"] s
  show ?thesis by auto
qed

end
