(* ===== verification/Keygen.thy ===== *)
theory Keygen
  imports Config_Roundtrip Session_Safety
begin

text \<open>
  The key generator (\<open>src/tools/keygen.c\<close>): draws one key pair and prints both keys in the format
  the configuration files use. The theorem composes it with the loader and the session setup: the
  lines printed on two machines, placed in the files as documented, give sessions whose static keys
  belong together.
\<close>

section \<open>The program\<close>

text \<open>\<open>main\<close>: the draws made, what goes to standard output and standard error, and the exit code.\<close>

definition keygen_main :: "sodium \<Rightarrow> nat \<Rightarrow> nat \<times> string \<times> string \<times> int" where
  "keygen_main sod rng =
     (if crypto_init sod \<noteq> 0 then
        (rng, [], ''edgarvpn-keygen: failed to initialize crypto library'' @ [NL], 1)
      else case crypto_generate_keypair sod rng of
        ((pk, sk), rng') \<Rightarrow>
          (let pk_text = crypto_encode_base64 sod pk; sk_text = crypto_encode_base64 sod sk
           in (rng', ''PrivateKey = '' @ sk_text @ [NL] @ ''PublicKey  = '' @ pk_text @ [NL], [], 0)))"

section \<open>Its lines in a configuration file\<close>

text \<open>The public key line has its key padded with a second space.\<close>

lemma config_line_padded:
  assumes k: "key_word k" and v: "plain v"
  shows "config_line sod st n (k @ ''  = '' @ v @ [NL]) =
    (case sect st of
       SECTION_INTERFACE \<Rightarrow> interface_key sod st n k v
     | SECTION_PEER \<Rightarrow> peer_key sod st n k v
     | SECTION_NONE \<Rightarrow> Inl (KeyOutsideSection n))"
proof -
  let ?line = "k @ ''  = '' @ v @ [NL]" and ?t = "k @ ''  ='' @ strip_end (CHR '' '' # v)"
  have "cstr ?line = ?line"
    using assms by (auto simp: cstr_def key_word_def plain_def list_all_iff takeWhile_eq_all_conv)
  moreover have "dropWhile isspace ?line = ?line"
    using k by (cases k) (auto simp: key_word_def)
  ultimately have "trim (cstr ?line) = strip_end ((k @ ''  '') @ CHR ''='' # ('' '' @ v @ [NL]))"
    by (simp add: trim_strip)
  also have "\<dots> = k @ ''  ='' @ strip_end ((CHR '' '' # v) @ [NL])"
    by (subst strip_end_mid) simp_all
  also have "\<dots> = ?t" by (simp only: strip_end_space isspace_simps)
  finally have trimmed: "trim (cstr ?line) = ?t" .
  have cut: "cut_first CHR ''='' ?t = Some (k @ ''  '', strip_end (CHR '' '' # v))"
    using cut_first_append [of "CHR ''=''" "k @ ''  ''"] k by (auto simp: key_word_def list_all_iff)
  have key: "trim (k @ ''  '') = k"
  proof -
    have "dropWhile isspace (k @ ''  '') = k @ ''  ''" using k by (cases k) (auto simp: key_word_def)
    moreover obtain c w where "k = w @ [c]" "\<not> isspace c"
      using k by (cases k rule: rev_cases) (auto simp: key_word_def)
    ultimately show ?thesis by (simp add: trim_strip strip_end_def)
  qed
  have "?t \<noteq> []" "hd ?t \<noteq> CHR ''#''" "hd ?t \<noteq> CHR '';''" "hd ?t \<noteq> CHR ''[''"
    using k by (cases k; simp add: key_word_def)+
  then have "config_line sod st n ?line = key_value sod st n ?t"
    by (simp only: config_line_def trimmed Let_def) simp
  also have "\<dots> = (case sect st of
       SECTION_INTERFACE \<Rightarrow> interface_key sod st n k v
     | SECTION_PEER \<Rightarrow> peer_key sod st n k v
     | SECTION_NONE \<Rightarrow> Inl (KeyOutsideSection n))"
    by (simp only: key_value_def cut option.case prod.case Let_def key trim_space_value [OF v])
  finally show ?thesis .
qed

text \<open>What a loader does with the two lines of one run.\<close>

lemma keygen_lines:
  assumes laws: "sodium_ok sod" "base64_correct sod" "base64_text sod" and init: "crypto_init sod = 0"
  obtains priv pub where "keygen_main sod i = (Suc i, priv @ pub, [], 0)"
    "\<forall>st n. sect st = SECTION_INTERFACE \<longrightarrow> config_line sod st n priv =
       Inr (st\<lparr>cfg := (cfg st)\<lparr>private_key := snd (kx_keypair sod i), has_private_key := True\<rparr>\<rparr>)"
    "\<forall>st n. sect st = SECTION_PEER \<longrightarrow> config_line sod st n pub =
       Inr (st\<lparr>cfg := upd_cur (\<lambda>c. c\<lparr>public_key := fst (kx_keypair sod i)\<rparr>) (cfg st), have_pubkey := True\<rparr>)"
proof -
  let ?sk = "snd (kx_keypair sod i)" and ?pk = "fst (kx_keypair sod i)"
  define priv where "priv = assign_line ''PrivateKey'' (crypto_encode_base64 sod ?sk) @ [NL]"
  define pub where "pub = ''PublicKey'' @ ''  = '' @ crypto_encode_base64 sod ?pk @ [NL]"
  have plain: "plain (crypto_encode_base64 sod b)" for b
    by (rule solid_plain [OF solid_base64 [OF laws(3)]])
  have dec: "crypto_decode_base64 sod (crypto_encode_base64 sod ?sk) CRYPTO_SECRET_KEY_BYTES = Some ?sk"
    "crypto_decode_base64 sod (crypto_encode_base64 sod ?pk) CRYPTO_PUBLIC_KEY_BYTES = Some ?pk"
    by (rule decode_encode [OF laws(2)]; rule kx_keypair_facts [OF laws(1)])+
  show thesis
  proof (rule that [of priv pub])
    show "keygen_main sod i = (Suc i, priv @ pub, [], 0)"
      using init by (simp add: keygen_main_def crypto_generate_keypair_def priv_def pub_def assign_line_def split_beta)
    show "\<forall>st n. sect st = SECTION_INTERFACE \<longrightarrow>
        config_line sod st n priv = Inr (st\<lparr>cfg := (cfg st)\<lparr>private_key := ?sk, has_private_key := True\<rparr>\<rparr>)"
      using dec(1)
      by (simp only: priv_def config_line_assign [OF key_words(5) plain]) (simp add: interface_key_def key_table)
    show "\<forall>st n. sect st = SECTION_PEER \<longrightarrow> config_line sod st n pub =
        Inr (st\<lparr>cfg := upd_cur (\<lambda>c. c\<lparr>public_key := ?pk\<rparr>) (cfg st), have_pubkey := True\<rparr>)"
      using dec(2)
      by (simp only: pub_def config_line_padded [OF key_words(7) plain]) (simp add: peer_key_def key_table)
  qed
qed

lemma upd_cur_last: "peers c \<noteq> [] \<Longrightarrow> last (peers (upd_cur f c)) = f (last (peers c))"
  by (simp add: upd_cur_def)

lemma session_init_draws:
  assumes "sodium_ok sod" "kx_correct sod" "kx_draws_correct sod"
  obtains ra a rb b where
    "session_init sod r now CRYPTO_ROLE_INITIATOR (crypto_derive_public_key sod (snd (kx_keypair sod i)))
       (snd (kx_keypair sod i)) (fst (kx_keypair sod j)) = Some (ra, a)"
    "session_init sod r' now' CRYPTO_ROLE_RESPONDER (crypto_derive_public_key sod (snd (kx_keypair sod j)))
       (snd (kx_keypair sod j)) (fst (kx_keypair sod i)) = Some (rb, b)"
    "paired a b"
proof -
  note pk = kx_keypair_facts(3) [OF assms(1)]
  obtain k where k: "crypto_derive_session_keys sod CRYPTO_ROLE_INITIATOR (fst (kx_keypair sod i)) (snd (kx_keypair sod i))
      (fst (kx_keypair sod j)) = Some k"
    "crypto_derive_session_keys sod CRYPTO_ROLE_RESPONDER (fst (kx_keypair sod j)) (snd (kx_keypair sod j))
      (fst (kx_keypair sod i)) = Some \<lparr>rx = tx k, tx = rx k\<rparr>"
    by (rule derive_draws [OF assms])
  obtain ra a where a: "session_init sod r now CRYPTO_ROLE_INITIATOR (crypto_derive_public_key sod (snd (kx_keypair sod i)))
      (snd (kx_keypair sod i)) (fst (kx_keypair sod j)) = Some (ra, a)"
    using k(1) by (fastforce simp: session_init_def Let_def pk [symmetric])
  obtain rb b where b: "session_init sod r' now' CRYPTO_ROLE_RESPONDER (crypto_derive_public_key sod (snd (kx_keypair sod j)))
      (snd (kx_keypair sod j)) (fst (kx_keypair sod i)) = Some (rb, b)"
    using k(2) by (fastforce simp: session_init_def Let_def pk [symmetric])
  show thesis
    using that [OF a b] session_init_paired [OF assms(2) a [unfolded pk [of j]] b [unfolded pk [of i]]] by simp
qed

section \<open>Properties\<close>

text \<open>C25. Generated keys configure a working pair of peers: run the generator on two machines, put each
  \<open>PrivateKey\<close> line in the \<open>[Interface]\<close> section of its own file and each \<open>PublicKey\<close> line in a
  \<open>[Peer]\<close> section of the other's; the loader accepts the four lines as printed, and the sessions
  set up from the two configurations, one as initiator and one as responder, have matching static
  keys.\<close>

theorem generated_keys_configure_peers:
  assumes "sodium_ok sod" "base64_correct sod" "base64_text sod" "kx_correct sod" "kx_draws_correct sod"
    and "crypto_init sod = 0"
    and "sect ia = SECTION_INTERFACE" "sect pa = SECTION_PEER" "peers (cfg pa) \<noteq> []"
    and "sect ib = SECTION_INTERFACE" "sect pb = SECTION_PEER" "peers (cfg pb) \<noteq> []"
  shows "\<exists>priv_a pub_a priv_b pub_b ia' pa' ib' pb' ra a rb b.
    keygen_main sod i = (Suc i, priv_a @ pub_a, [], 0) \<and> keygen_main sod j = (Suc j, priv_b @ pub_b, [], 0) \<and>
    config_line sod ia n1 priv_a = Inr ia' \<and> config_line sod pa n2 pub_b = Inr pa' \<and>
    config_line sod ib n3 priv_b = Inr ib' \<and> config_line sod pb n4 pub_a = Inr pb' \<and>
    has_private_key (cfg ia') \<and> has_private_key (cfg ib') \<and>
    session_init sod r now CRYPTO_ROLE_INITIATOR (crypto_derive_public_key sod (private_key (cfg ia')))
      (private_key (cfg ia')) (public_key (last (peers (cfg pa')))) = Some (ra, a) \<and>
    session_init sod r' now' CRYPTO_ROLE_RESPONDER (crypto_derive_public_key sod (private_key (cfg ib')))
      (private_key (cfg ib')) (public_key (last (peers (cfg pb')))) = Some (rb, b) \<and>
    paired a b"
proof -
  obtain priv_a pub_a where A: "keygen_main sod i = (Suc i, priv_a @ pub_a, [], 0)"
    "\<forall>st n. sect st = SECTION_INTERFACE \<longrightarrow> config_line sod st n priv_a =
       Inr (st\<lparr>cfg := (cfg st)\<lparr>private_key := snd (kx_keypair sod i), has_private_key := True\<rparr>\<rparr>)"
    "\<forall>st n. sect st = SECTION_PEER \<longrightarrow> config_line sod st n pub_a =
       Inr (st\<lparr>cfg := upd_cur (\<lambda>c. c\<lparr>public_key := fst (kx_keypair sod i)\<rparr>) (cfg st), have_pubkey := True\<rparr>)"
    by (rule keygen_lines [OF assms(1-3,6), of i])
  obtain priv_b pub_b where B: "keygen_main sod j = (Suc j, priv_b @ pub_b, [], 0)"
    "\<forall>st n. sect st = SECTION_INTERFACE \<longrightarrow> config_line sod st n priv_b =
       Inr (st\<lparr>cfg := (cfg st)\<lparr>private_key := snd (kx_keypair sod j), has_private_key := True\<rparr>\<rparr>)"
    "\<forall>st n. sect st = SECTION_PEER \<longrightarrow> config_line sod st n pub_b =
       Inr (st\<lparr>cfg := upd_cur (\<lambda>c. c\<lparr>public_key := fst (kx_keypair sod j)\<rparr>) (cfg st), have_pubkey := True\<rparr>)"
    by (rule keygen_lines [OF assms(1-3,6), of j])
  obtain ra a rb b where s:
    "session_init sod r now CRYPTO_ROLE_INITIATOR (crypto_derive_public_key sod (snd (kx_keypair sod i)))
       (snd (kx_keypair sod i)) (fst (kx_keypair sod j)) = Some (ra, a)"
    "session_init sod r' now' CRYPTO_ROLE_RESPONDER (crypto_derive_public_key sod (snd (kx_keypair sod j)))
       (snd (kx_keypair sod j)) (fst (kx_keypair sod i)) = Some (rb, b)"
    "paired a b"
    by (rule session_init_draws [OF assms(1,4,5)])
  show ?thesis
    by (rule exI [of _ priv_a], rule exI [of _ pub_a], rule exI [of _ priv_b], rule exI [of _ pub_b])
      (simp add: A(1) B(1) A(2,3) B(2,3) assms(7,8,10,11)
        upd_cur_last assms(9,12) s)
qed

theorem generated_keys_configure_peers_witness:
  "\<exists>priv_a pub_a. keygen_main demo_sodium 3 = (4, priv_a @ pub_a, [], 0) \<and>
     (\<exists>st. config_line demo_sodium (load_start\<lparr>sect := SECTION_INTERFACE\<rparr>) 2 priv_a = Inr st \<and> has_private_key (cfg st))"
proof -
  let ?i = "load_start\<lparr>sect := SECTION_INTERFACE\<rparr>"
  let ?p = "load_start\<lparr>sect := SECTION_PEER, cfg := default_config\<lparr>peers := [zero_peer]\<rparr>\<rparr>"
  have "crypto_init demo_sodium = 0" by (simp add: crypto_init_def demo_sodium_def)
  moreover have "sect ?i = SECTION_INTERFACE" "sect ?p = SECTION_PEER" "peers (cfg ?p) \<noteq> []" by simp_all
  ultimately show ?thesis
    using generated_keys_configure_peers [OF demo_sodium_ok demo_base64_correct demo_base64_text demo_kx_correct
      demo_kx_draws_correct, of ?i ?p ?i ?p 3 8 2 2 2 2 0 1000 0 1000] by fastforce
qed

end
