(* ===== verification/Spec2Isabelle.thy ===== *)
theory Spec2Isabelle
  imports
    Prelude CLib Replay Crypto Session Session_Safety Channel Process Config Config_Roundtrip Routing Log
    Netdev Messages Daemon Daemon_Refinement Daemon_Safety Daemon_Inbound Tunnel Daemon_Lifecycle
    Daemon_Freshness Daemon_Logging Keygen
begin

text \<open>
  EdgarVPN is a small point-to-point VPN daemon written in C. A daemon reads IPv4 packets from a TUN
  interface, chooses a peer by the packet's destination, seals the packet under keys agreed in a
  two-message handshake and sends it as a UDP datagram; datagrams that arrive are authenticated,
  checked against a replay window and written to the interface. Timers send keepalives, detect dead
  peers and rotate keys. This development models the whole daemon and the key generator as functions
  on explicit state, and proves what they promise.

  \<^bold>\<open>The theories and the files they model\<close>

  \<^item> \<^verbatim>\<open>Prelude\<close>: types (C integers as words, byte strings as lists), the collections of rewrite
    rules, and the interfaces. \<open>codec\<close> is interpreted by the wire counters and by IPv4 addresses,
    \<open>freshness_filter\<close> by the replay window, \<open>invariant_system\<close> by the session, by the
    process of sessions and by the daemon's loop, \<open>checked_scan\<close> by the configuration loader, \<open>slot_bitmap\<close> by the window's bytes.
  \<^item> \<^verbatim>\<open>CLib\<close>: the parts of the C library the sources use: \<open>fgets\<close>, \<open>strtol\<close>, \<open>strcasecmp\<close>,
    \<open>inet_pton\<close> and \<open>inet_ntop\<close>, byte order.
  \<^item> \<^verbatim>\<open>Crypto\<close> (\<open>src/src/crypto.c\<close>, \<open>crypto.h\<close>): the wrapper around libsodium. The library is a
    record of functions, a parameter of everything above it, and what is documented about it is a
    set of named laws (\<open>aead_correct\<close>, \<open>keypair_correct\<close>, \<open>kx_correct\<close>, \<open>kx_draws_correct\<close>,
    \<open>memzero_correct\<close>, \<open>base64_correct\<close>, \<open>base64_text\<close>). \<open>demo_sodium\<close> is a toy instance that
    satisfies them all; the witnesses of the properties run on it. Key generation is numbered: the
    \<open>n\<close>-th draw is a function of \<open>n\<close>, and the count of draws is threaded through the state.
  \<^item> \<^verbatim>\<open>Replay\<close> (\<open>replay_*\<close> in \<open>src/src/session.c\<close>): the sliding window bitmap.
  \<^item> \<^verbatim>\<open>Session\<close>, \<^verbatim>\<open>Session_Safety\<close>, \<^verbatim>\<open>Channel\<close> (\<open>src/src/session.c\<close>, \<open>session.h\<close>): one
    relationship with a peer. The record \<open>session\<close> is \<open>session_t\<close> and extends the replay state; there
    is one function per operation, \<open>-1\<close> is \<open>None\<close>. \<open>session_step\<close> is any call with any message.
  \<^item> \<^verbatim>\<open>Config\<close>, \<^verbatim>\<open>Config_Roundtrip\<close> (\<open>src/src/config.c\<close>): the loader, a scan over the lines
    \<open>fgets\<close> delivers with each error message a constructor, and a reference printer of the format.
  \<^item> \<^verbatim>\<open>Routing\<close> (\<open>src/src/routing.c\<close>), \<^verbatim>\<open>Log\<close> (\<open>src/src/log.c\<close>), \<^verbatim>\<open>Netdev\<close>
    (\<open>src/src/tun.c\<close>, \<open>src/src/udp.c\<close>): destination lookup, log lines, devices. Open descriptors and
    \<open>errno\<close> are state; what a system call answers is an argument.
  \<^item> \<^verbatim>\<open>Messages\<close> (the log calls of \<open>src/src/main.c\<close>): one constructor per format string, with its level
    and its text; and what the configuration loader prints about a file it rejects.
  \<^item> \<^verbatim>\<open>Daemon\<close> (\<open>src/src/main.c\<close>): \<open>peer_session\<close> is \<open>peer_session_t\<close>, \<open>daemon\<close> the locals of
    \<open>main\<close>; \<open>handle_tun\<close>, \<open>handle_udp\<close> and \<open>handle_timers\<close> are the three parts of the loop body,
    \<open>main_loop\<close> the loop, \<open>daemon_start\<close> and \<open>daemon_shutdown\<close> the code around it. Handlers
    return the new state and the list of effects (datagrams, packets, log calls) in order.
  \<^item> \<^verbatim>\<open>Process\<close>, \<^verbatim>\<open>Daemon_Refinement\<close>: a specification of the daemon, and that the daemon implements
    it. The abstract machine holds one session per peer and one key generator, and its only steps are
    calls of the session interface; what it emits are the results of these calls.
  \<^item> \<^verbatim>\<open>Daemon_Safety\<close>, \<^verbatim>\<open>Daemon_Inbound\<close>, \<^verbatim>\<open>Daemon_Lifecycle\<close>, \<^verbatim>\<open>Daemon_Freshness\<close>,
    \<^verbatim>\<open>Daemon_Logging\<close>, \<^verbatim>\<open>Tunnel\<close>: what holds of the daemon, and of two daemons with the network
    between them.
  \<^item> \<^verbatim>\<open>Keygen\<close> (\<open>src/tools/keygen.c\<close>): the key generator, composed with the loader and session setup.

  \<^bold>\<open>What the lemmas show\<close>

  \<^item> The replay bitmap refines a set of admitted counters with a sliding bound: each counter is
    admitted at most once, and reordering within the window loses nothing.
  \<^item> A session keeps its invariant under every call and message (ephemeral keys are real draws, are
    erased once the session is established, data keys come from them). Nonces are unique per key,
    handshake messages and data packets are accepted once, handshakes between matching ends agree.
  \<^item> Configuration files are read to the end, loaded values fit the program's arrays and come from
    the file, and printing followed by loading is the identity.
  \<^item> Every handler of the daemon is simulated by the abstract machine (\<open>simulates\<close>): the datagrams and
    packets of a run of the loop are, in order, what the calls of an abstract run return. Over whole
    runs, with the other peers' handshakes, failed sends and rekeying in between, no nonce is used
    twice under one key and no data packet is accepted twice under one key (\<open>progress\<close> is the relation
    between two states of one session that carries both).
  \<^item> Inside the daemon each session moves only by calls of its own interface (\<open>sess_reach\<close>), so its
    invariant and its identity carry over to every run of the loop from startup; packets leave only
    sealed for the peer their destination routes to and enter only authenticated and fresh; forged
    datagrams change nothing but two counters; endpoints are learned from authenticated handshakes
    only; after the timers nothing is due; every exit path closes what was opened.
  \<^item> The log does not depend on the contents of tunnelled packets, no log line is cut short, and a start
    that fails always says why on the error stream.
  \<^item> Two daemons bring a tunnel up and carry a packet from one interface to the other, once.

  \<^bold>\<open>Bounds\<close>

  There is no fuel: every loop of the sources is a terminating function, by structure or by a measure
  (the clear loop of the window, the reads of a file). The loop of \<open>main\<close> runs over a list of
  iterations, one entry for each round with what \<open>g_running\<close>, \<open>poll\<close> and the other calls answer;
  the theorems hold for all such lists. Counters and clocks are words of their C width: nonce
  uniqueness assumes that no counter of \<open>2 ^ 64\<close> values runs out, timer differences wrap around.

  \<^bold>\<open>Not modelled\<close>

  libsodium and the kernel are parameters. Secrecy is not stated: the laws of the library say that
  what is sealed opens under the same key and that both ends derive the same keys, not what an
  adversary can compute; theorems about forged messages are about messages that fail to open. Signal
  delivery appears only as the value of \<open>g_running\<close> at the head of an iteration. The
  texts of \<open>strerror\<close> are a parameter. The tests, the build, the container files and the sample configurations are not part of the model.
\<close>

end
